theory Spec2Isabelle
  imports Main
begin

section \<open>Paths\<close>

text \<open>
  The script builds its paths with \<^verbatim>\<open>os.path.join\<close> and \<^verbatim>\<open>os.path.dirname\<close>.
  They are modelled as the POSIX flavour of Python's path module computes them
  (separator \<^verbatim>\<open>/\<close>); a path is the string the script holds.
\<close>

type_synonym path = string

definition sep :: char where
  "sep = CHR ''/''"

text \<open>\<^verbatim>\<open>p[p.rfind('/') + 1:]\<close>: what follows the last separator.\<close>

definition basename :: "path \<Rightarrow> path" where
  "basename p = rev (takeWhile (\<lambda>c. c \<noteq> sep) (rev p))"

text \<open>\<^verbatim>\<open>head.rstrip('/')\<close>\<close>

definition rstrip_sep :: "path \<Rightarrow> path" where
  "rstrip_sep h = rev (dropWhile (\<lambda>c. c = sep) (rev h))"

text \<open>
  \<^verbatim>\<open>head = p[:p.rfind('/') + 1]\<close>, and
  \<^verbatim>\<open>if head and head != '/' * len(head): head = head.rstrip('/')\<close>.
\<close>

definition dirname :: "path \<Rightarrow> path" where
  "dirname p =
     (let head = rev (dropWhile (\<lambda>c. c \<noteq> sep) (rev p))
      in if head \<noteq> [] \<and> head \<noteq> replicate (length head) sep
         then rstrip_sep head else head)"

text \<open>
  \<^verbatim>\<open>os.path.join(a, b)\<close> with one component \<open>b\<close>: an absolute \<open>b\<close> replaces
  \<open>a\<close>; an empty \<open>a\<close> or one that ends with the separator takes \<open>b\<close> as it is;
  otherwise the separator is put between them.
\<close>

definition join :: "path \<Rightarrow> path \<Rightarrow> path" where
  "join a b =
     (if b \<noteq> [] \<and> hd b = sep then b
      else if a = [] \<or> last a = sep then a @ b
      else a @ [sep] @ b)"

section \<open>Module level: the scratch directory and the catalog of artifact paths\<close>

text \<open>
  \<open>src_img\<close> is the value of line 31, the absolute path of the source image.
  Lines 34 and 39 to 47 derive the scratch directory and the six artifact paths from it.
\<close>

definition tmp_dir :: "path \<Rightarrow> path" where
  "tmp_dir src_img = join (dirname src_img) ''tmp''"

definition uncompressed :: "path \<Rightarrow> path" where
  "uncompressed src_img = join (tmp_dir src_img) ''uncompressed.tif''"

definition packbits :: "path \<Rightarrow> path" where
  "packbits src_img = join (tmp_dir src_img) ''packbits.tif''"

definition deflate_1 :: "path \<Rightarrow> path" where
  "deflate_1 src_img = join (tmp_dir src_img) ''deflate_1.tif''"

definition deflate_2 :: "path \<Rightarrow> path" where
  "deflate_2 src_img = join (tmp_dir src_img) ''deflate_2.tif''"

definition lzw_1 :: "path \<Rightarrow> path" where
  "lzw_1 src_img = join (tmp_dir src_img) ''lzw_1.tif''"

definition lzw_2 :: "path \<Rightarrow> path" where
  "lzw_2 src_img = join (tmp_dir src_img) ''lzw_2.tif''"

definition files :: "path \<Rightarrow> path list" where
  "files src_img =
     [uncompressed src_img, packbits src_img, deflate_1 src_img,
      deflate_2 src_img, lzw_1 src_img, lzw_2 src_img]"


definition rows :: "string list" where
  "rows = [''Size'', ''Write time'', ''Read time'']"

definition columns :: "string list" where
  "columns = [''Uncompressed'', ''Packbits'', ''Deflate pred=1'',
              ''Deflate pred=2'', ''LZW pred=1'', ''LZW pred=2'']"

section \<open>The world outside the script\<close>

text \<open>
  The file system is an association list from paths to nodes; the first entry of a path
  is the one that counts. A regular file carries its size in bytes.
\<close>

datatype node = File nat | Dir

type_synonym fsys = "(path \<times> node) list"

text \<open>
  Exceptions. All but \<open>EngineError\<close> are \<^verbatim>\<open>OSError\<close>s; \<open>EngineError\<close> stands for
  whatever the raster engine or the table library raises, with its message.
\<close>

datatype exn =
    FileNotFoundError path
  | FileExistsError path
  | NotADirectoryError path
  | IsADirectoryError path
  | DirectoryNotEmpty path
  | OSError string path
  | EngineError string

definition quoted :: "char \<Rightarrow> string \<Rightarrow> string" where
  "quoted q s = q # s @ [q]"

text \<open>\<^verbatim>\<open>str(err)\<close>, for a path that \<^verbatim>\<open>repr\<close> prints between single quotes.\<close>

fun str_exn :: "exn \<Rightarrow> string" where
  "str_exn (FileNotFoundError p) = ''[Errno 2] No such file or directory: '' @ quoted (CHR 0x27) p"
| "str_exn (FileExistsError p) = ''[Errno 17] File exists: '' @ quoted (CHR 0x27) p"
| "str_exn (NotADirectoryError p) = ''[Errno 20] Not a directory: '' @ quoted (CHR 0x27) p"
| "str_exn (IsADirectoryError p) = ''[Errno 21] Is a directory: '' @ quoted (CHR 0x27) p"
| "str_exn (DirectoryNotEmpty p) = ''[Errno 39] Directory not empty: '' @ quoted (CHR 0x27) p"
| "str_exn (OSError m p) = m @ '': '' @ quoted (CHR 0x27) p"
| "str_exn (EngineError m) = m"

text \<open>
  A cell of a measurement row: a string (a formatted size, or the empty string the
  variables start with) or a duration, the difference of two clock readings.
\<close>

datatype cell = Str string | Secs int

type_synonym row = "cell list"

text \<open>The operations the script performs on the world, recorded in the order they happen.\<close>

datatype event =
    Exists path
  | Mkdir path
  | Open path
  | Translate path path string
  | Getsize path
  | ReadTif path
  | Remove path
  | Rmdir path
  | DataFrame "row option list" "string list" "string list"

text \<open>
  What the script does not decide itself is a parameter of the model:
  the script's file name as the log lines print it, the readings of \<^verbatim>\<open>time.time()\<close>
  (the n-th call returns \<open>clock n\<close>, in clock ticks), \<^verbatim>\<open>str\<close> of a duration,
  operating-system failures (permissions, a busy or read-only volume) that make a
  file operation raise whatever the file system holds, the size a directory reports,
  the raster engine (\<^verbatim>\<open>gdal.Open\<close>, \<^verbatim>\<open>gdal.Translate\<close> under the options parsed from a
  command string, \<^verbatim>\<open>gdal.Open(tif).ReadAsArray()\<close>), the size formatter
  \<^verbatim>\<open>size(n, system=si)\<close> and \<^verbatim>\<open>pandas.DataFrame\<close> with its printed form.
\<close>

record env =
  script_name :: string
  clock :: "nat \<Rightarrow> int"
  str_float :: "int \<Rightarrow> string"
  os_fault :: "event \<Rightarrow> string option"
  dir_st_size :: "path \<Rightarrow> nat"
  open_raises :: "fsys \<Rightarrow> path \<Rightarrow> exn option"
  translate_result :: "fsys \<Rightarrow> path \<Rightarrow> path \<Rightarrow> string \<Rightarrow> exn + fsys"
  read_raises :: "fsys \<Rightarrow> path \<Rightarrow> exn option"
  size_si :: "nat \<Rightarrow> string"
  data_frame :: "row option list \<Rightarrow> string list \<Rightarrow> string list \<Rightarrow> exn + string"

record world =
  disk :: fsys
  ticks :: nat
  stdout :: "string list"
  trace :: "event list"

definition emit :: "event \<Rightarrow> world \<Rightarrow> world" where
  "emit e w = w\<lparr>trace := trace w @ [e]\<rparr>"

definition print :: "string \<Rightarrow> world \<Rightarrow> world" where
  "print s w = w\<lparr>stdout := stdout w @ [s]\<rparr>"

definition time_time :: "env \<Rightarrow> world \<Rightarrow> int \<times> world" where
  "time_time E w = (clock E (ticks w), w\<lparr>ticks := Suc (ticks w)\<rparr>)"

subsection \<open>File operations\<close>

definition lookup :: "fsys \<Rightarrow> path \<Rightarrow> node option" where
  "lookup d p = map_of d p"

definition children :: "fsys \<Rightarrow> path \<Rightarrow> path list" where
  "children d p = filter (\<lambda>q. dirname q = p \<and> q \<noteq> p) (map fst d)"

definition unlink :: "path \<Rightarrow> fsys \<Rightarrow> fsys" where
  "unlink p d = filter (\<lambda>e. fst e \<noteq> p) d"

definition os_path_exists :: "path \<Rightarrow> world \<Rightarrow> bool \<times> world" where
  "os_path_exists p w = (lookup (disk w) p \<noteq> None, emit (Exists p) w)"

text \<open>
  \<^verbatim>\<open>os.mkdir\<close>: the path must be new and its parent a directory; an empty parent is the
  current directory.
\<close>

definition os_mkdir :: "env \<Rightarrow> path \<Rightarrow> world \<Rightarrow> (exn + unit) \<times> world" where
  "os_mkdir E p w =
     (let w1 = emit (Mkdir p) w in
      case os_fault E (Mkdir p) of
        Some m \<Rightarrow> (Inl (OSError m p), w1)
      | None \<Rightarrow>
          if lookup (disk w1) p \<noteq> None then (Inl (FileExistsError p), w1)
          else if dirname p = [] then (Inr (), w1\<lparr>disk := (p, Dir) # disk w1\<rparr>)
          else (case lookup (disk w1) (dirname p) of
                  None \<Rightarrow> (Inl (FileNotFoundError p), w1)
                | Some (File n) \<Rightarrow> (Inl (NotADirectoryError p), w1)
                | Some Dir \<Rightarrow> (Inr (), w1\<lparr>disk := (p, Dir) # disk w1\<rparr>)))"

text \<open>
  \<^verbatim>\<open>head, tail = path.split(name)\<close> and
  \<^verbatim>\<open>if not tail: head, tail = path.split(head)\<close>, as \<^verbatim>\<open>os.makedirs\<close> and
  \<^verbatim>\<open>os.removedirs\<close> both start.
\<close>

definition split_last :: "path \<Rightarrow> path \<times> path" where
  "split_last name =
     (if basename name = [] then (dirname (dirname name), basename (dirname name))
      else (dirname name, basename name))"


text \<open>
  \<^verbatim>\<open>os.makedirs(name)\<close>: a missing parent is made first (a \<^verbatim>\<open>FileExistsError\<close>
  from that is passed over), a last component \<^verbatim>\<open>.\<close> ends there, and the final
  \<^verbatim>\<open>mkdir\<close> raises what it raises.
\<close>

lemma length_dirname_basename: "length (dirname p) + length (basename p) \<le> length p"
proof -
  define head where "head = rev (dropWhile (\<lambda>c. c \<noteq> sep) (rev p))"
  have "length (rstrip_sep head) \<le> length head"
    unfolding rstrip_sep_def using length_dropWhile_le[of "\<lambda>c. c = sep" "rev head"] by simp
  then have a: "length (dirname p) \<le> length head"
    by (simp add: dirname_def head_def[symmetric] Let_def)
  have "length (takeWhile (\<lambda>c. c \<noteq> sep) (rev p) @ dropWhile (\<lambda>c. c \<noteq> sep) (rev p))
      = length (rev p)"
    by (simp only: takeWhile_dropWhile_id)
  then have "length head + length (basename p) = length p"
    unfolding head_def basename_def by (simp only: length_append length_rev add.commute)
  with a show ?thesis by arith
qed

lemma split_last_shorter:
  "snd (split_last name) \<noteq> [] \<Longrightarrow> length (fst (split_last name)) < length name"
proof -
  have a: "basename q \<noteq> [] \<Longrightarrow> length (dirname q) < length q" for q
    using length_dirname_basename[of q] by (cases "basename q") auto
  have b: "length (dirname q) \<le> length q" for q
    using length_dirname_basename[of q] by simp
  assume "snd (split_last name) \<noteq> []"
  then show ?thesis
    using a[of name] a[of "dirname name"] b[of name]
    by (auto simp: split_last_def split: if_splits)
qed

function os_makedirs :: "env \<Rightarrow> path \<Rightarrow> world \<Rightarrow> (exn + unit) \<times> world" where
  "os_makedirs E name w =
     (if fst (split_last name) \<noteq> [] \<and> snd (split_last name) \<noteq> [] \<and>
         lookup (disk w) (fst (split_last name)) = None
      then (case os_makedirs E (fst (split_last name)) w of
              (Inl (FileExistsError q), w1) \<Rightarrow>
                if snd (split_last name) = ''.'' then (Inr (), w1) else os_mkdir E name w1
            | (Inl e, w1) \<Rightarrow> (Inl e, w1)
            | (Inr u, w1) \<Rightarrow>
                if snd (split_last name) = ''.'' then (Inr (), w1) else os_mkdir E name w1)
      else os_mkdir E name w)"
  by pat_completeness auto
termination
  by (relation "measure (\<lambda>(E, name, w). length name)") (auto simp: split_last_shorter)

text \<open>\<^verbatim>\<open>os.remove\<close>: deletes a regular file.\<close>

definition os_remove :: "env \<Rightarrow> path \<Rightarrow> world \<Rightarrow> (exn + unit) \<times> world" where
  "os_remove E p w =
     (let w1 = emit (Remove p) w in
      case os_fault E (Remove p) of
        Some m \<Rightarrow> (Inl (OSError m p), w1)
      | None \<Rightarrow>
          (case lookup (disk w1) p of
             None \<Rightarrow> (Inl (FileNotFoundError p), w1)
           | Some Dir \<Rightarrow> (Inl (IsADirectoryError p), w1)
           | Some (File n) \<Rightarrow> (Inr (), w1\<lparr>disk := unlink p (disk w1)\<rparr>)))"

text \<open>
  \<^verbatim>\<open>os.rmdir\<close>: deletes an empty directory; a root (a path that is its own parent)
  is busy.
\<close>

definition os_rmdir :: "env \<Rightarrow> path \<Rightarrow> world \<Rightarrow> (exn + unit) \<times> world" where
  "os_rmdir E p w =
     (let w1 = emit (Rmdir p) w in
      case os_fault E (Rmdir p) of
        Some m \<Rightarrow> (Inl (OSError m p), w1)
      | None \<Rightarrow>
          (case lookup (disk w1) p of
             None \<Rightarrow> (Inl (FileNotFoundError p), w1)
           | Some (File n) \<Rightarrow> (Inl (NotADirectoryError p), w1)
           | Some Dir \<Rightarrow>
               if dirname p = p then (Inl (OSError ''[Errno 16] Device or resource busy'' p), w1)
               else if children (disk w1) p \<noteq> [] then (Inl (DirectoryNotEmpty p), w1)
               else (Inr (), w1\<lparr>disk := unlink p (disk w1)\<rparr>)))"

text \<open>
  The loop of \<^verbatim>\<open>os.removedirs\<close>:
  \<^verbatim>\<open>while head and tail: try: rmdir(head) except OSError: break; head, tail = path.split(head)\<close>.
  Every exception of \<open>os_rmdir\<close> is an \<^verbatim>\<open>OSError\<close>.
\<close>

function prune :: "env \<Rightarrow> path \<Rightarrow> path \<Rightarrow> world \<Rightarrow> world" where
  "prune E head tail w =
     (if head \<noteq> [] \<and> tail \<noteq> []
      then (case os_rmdir E head w of
              (Inl e, w1) \<Rightarrow> w1
            | (Inr u, w1) \<Rightarrow> prune E (dirname head) (basename head) w1)
      else w)"
  by pat_completeness auto
termination
proof (relation "measure (\<lambda>(E, head, tail, w). if tail = [] then 0 else Suc (length head))")
  show "wf (measure (\<lambda>(E, head, tail, w). if tail = [] then 0 else Suc (length head)))"
    by simp
next
  fix E :: env and head tail :: path and w :: world and x :: "(exn + unit) \<times> world"
    and x1 :: "exn + unit" and x2 :: world and b :: unit
  assume "head \<noteq> [] \<and> tail \<noteq> []"
  then show "((E, dirname head, basename head, x2), E, head, tail, w)
      \<in> measure (\<lambda>(E, head, tail, w). if tail = [] then 0 else Suc (length head))"
    using length_dirname_basename[of head] by (cases "basename head") auto
qed

text \<open>
  \<^verbatim>\<open>os.removedirs(name)\<close>: \<^verbatim>\<open>rmdir(name)\<close>, whose exception propagates, then the
  loop over the ancestors.
\<close>

definition os_removedirs :: "env \<Rightarrow> path \<Rightarrow> world \<Rightarrow> (exn + unit) \<times> world" where
  "os_removedirs E name w =
     (case os_rmdir E name w of
        (Inl e, w1) \<Rightarrow> (Inl e, w1)
      | (Inr u, w1) \<Rightarrow> (Inr (), prune E (fst (split_last name)) (snd (split_last name)) w1))"

text \<open>\<^verbatim>\<open>os.path.getsize\<close>: the size the path's status reports.\<close>

definition os_path_getsize :: "env \<Rightarrow> path \<Rightarrow> world \<Rightarrow> (exn + nat) \<times> world" where
  "os_path_getsize E p w =
     (let w1 = emit (Getsize p) w in
      case os_fault E (Getsize p) of
        Some m \<Rightarrow> (Inl (OSError m p), w1)
      | None \<Rightarrow>
          (case lookup (disk w1) p of
             None \<Rightarrow> (Inl (FileNotFoundError p), w1)
           | Some (File n) \<Rightarrow> (Inr n, w1)
           | Some Dir \<Rightarrow> (Inr (dir_st_size E p), w1)))"

subsection \<open>The raster engine\<close>

text \<open>
  \<^verbatim>\<open>gdal.Translate(dest_name, src_ds, options=...)\<close> stands here with the command string
  its options were parsed from (\<^verbatim>\<open>gdal.TranslateOptions(gdal.ParseCommandLine(command))\<close>).
  Whether a call raises, and what a translate leaves on the disk, is the environment's.
\<close>

definition gdal_Open :: "env \<Rightarrow> path \<Rightarrow> world \<Rightarrow> (exn + unit) \<times> world" where
  "gdal_Open E p w =
     (let w1 = emit (Open p) w in
      case open_raises E (disk w1) p of
        Some e \<Rightarrow> (Inl e, w1)
      | None \<Rightarrow> (Inr (), w1))"

definition gdal_Translate :: "env \<Rightarrow> path \<Rightarrow> path \<Rightarrow> string \<Rightarrow> world \<Rightarrow> (exn + unit) \<times> world" where
  "gdal_Translate E dest_name src_ds command w =
     (let w1 = emit (Translate dest_name src_ds command) w in
      case translate_result E (disk w1) dest_name src_ds command of
        Inl e \<Rightarrow> (Inl e, w1)
      | Inr d \<Rightarrow> (Inr (), w1\<lparr>disk := d\<rparr>))"

definition read_tif :: "env \<Rightarrow> path \<Rightarrow> world \<Rightarrow> (exn + unit) \<times> world" where
  "read_tif E tif w =
     (let w1 = emit (ReadTif tif) w in
      case read_raises E (disk w1) tif of
        Some e \<Rightarrow> (Inl e, w1)
      | None \<Rightarrow> (Inr (), w1))"


section \<open>The stages\<close>

text \<open>
  The six variants: one per local variable of a stage (\<^verbatim>\<open>write_uncompressed\<close>,
  \<^verbatim>\<open>size_packbits\<close>, ...), per branch of its loop and per position of its result.
\<close>

datatype variant = Uncompressed | Packbits | Deflate_1 | Deflate_2 | Lzw_1 | Lzw_2

definition catalog :: "variant list" where
  "catalog = [Uncompressed, Packbits, Deflate_1, Deflate_2, Lzw_1, Lzw_2]"

text \<open>
  The chain \<^verbatim>\<open>if file == uncompressed: ... elif file == packbits: ... else: continue\<close>,
  which every loop repeats: the first global the file equals picks the branch.
\<close>

definition branch :: "path \<Rightarrow> path \<Rightarrow> variant option" where
  "branch src_img file =
     (if file = uncompressed src_img then Some Uncompressed
      else if file = packbits src_img then Some Packbits
      else if file = deflate_1 src_img then Some Deflate_1
      else if file = deflate_2 src_img then Some Deflate_2
      else if file = lzw_1 src_img then Some Lzw_1
      else if file = lzw_2 src_img then Some Lzw_2
      else None)"

text \<open>The command strings of lines 66 to 71; \<open>co\<close> writes one creation option in double quotes.\<close>

definition co :: "string \<Rightarrow> string" where
  "co s = '' -co '' @ quoted (CHR 0x22) s"

fun command :: "variant \<Rightarrow> string" where
  "command Uncompressed = ''-of GTiff'' @ co ''BIGTIFF=IF_SAFE''"
| "command Packbits =
     ''-of GTiff'' @ co ''BIGTIFF=IF_SAFE'' @ co ''COMPRESS=PACKBITS'' @ co ''TILED=YES''"
| "command Deflate_1 =
     ''-of GTiff'' @ co ''BIGTIFF=IF_SAFE'' @ co ''COMPRESS=DEFLATE'' @ co ''PREDICTOR=1'' @
     co ''TILED=YES''"
| "command Deflate_2 =
     ''-of GTiff'' @ co ''BIGTIFF=IF_SAFE'' @ co ''COMPRESS=DEFLATE'' @ co ''PREDICTOR=2'' @
     co ''TILED=YES''"
| "command Lzw_1 =
     ''-of GTiff'' @ co ''BIGTIFF=IF_SAFE'' @ co ''COMPRESS=LZW'' @ co ''PREDICTOR=1'' @
     co ''TILED=YES''"
| "command Lzw_2 =
     ''-of GTiff'' @ co ''BIGTIFF=IF_SAFE'' @ co ''COMPRESS=LZW'' @ co ''PREDICTOR=2'' @
     co ''TILED=YES''"

text \<open>The log lines every function prints; \<open>name\<close> is \<^verbatim>\<open>sys._getframe().f_code.co_name\<close>.\<close>

definition begin_line :: "env \<Rightarrow> string \<Rightarrow> string" where
  "begin_line E name = ''|BEGIN - '' @ script_name E @ '' @ '' @ name @ ''|'' @ [CHR 0x0A]"

definition success_line :: "env \<Rightarrow> string \<Rightarrow> string" where
  "success_line E name = ''|SUCCESS - '' @ script_name E @ '' @ '' @ name @ ''|'' @ [CHR 0x0A]"

definition fail_line :: "env \<Rightarrow> string \<Rightarrow> exn \<Rightarrow> string" where
  "fail_line E name err =
     ''|FAIL - '' @ script_name E @ '' @ '' @ name @ '' - '' @ str_exn err @ ''|'' @ [CHR 0x0A]"

text \<open>The six local variables of a stage, all \<^verbatim>\<open>''\<close> before its loop.\<close>

definition unset :: "variant \<Rightarrow> cell" where
  "unset = (\<lambda>v. Str [])"

subsection \<open>\<^verbatim>\<open>generate_compressed_images\<close>\<close>

text \<open>
  The loop of lines 82 to 135. An exception leaves the loop at once, with the world as
  it is then. The first argument stands for the module's globals.
\<close>

fun encode_loop ::
  "env \<Rightarrow> path \<Rightarrow> path \<Rightarrow> path list \<Rightarrow> (variant \<Rightarrow> cell) \<Rightarrow> world \<Rightarrow>
     (exn + (variant \<Rightarrow> cell)) \<times> world" where
  "encode_loop E src_img input_image [] vars w = (Inr vars, w)"
| "encode_loop E src_img input_image (file # rest) vars w =
     (case time_time E w of (start_time, w1) \<Rightarrow>
        (case branch src_img file of
           None \<Rightarrow> encode_loop E src_img input_image rest vars w1
         | Some v \<Rightarrow>
             (case gdal_Open E input_image w1 of
                (Inl e, w2) \<Rightarrow> (Inl e, w2)
              | (Inr u, w2) \<Rightarrow>
                  (case gdal_Translate E file input_image (command v) w2 of
                     (Inl e, w3) \<Rightarrow> (Inl e, w3)
                   | (Inr u', w3) \<Rightarrow>
                       (case time_time E w3 of (t, w4) \<Rightarrow>
                          encode_loop E src_img input_image rest
                            (vars(v := Secs (t - start_time))) w4)))))"

definition generate_compressed_images ::
  "env \<Rightarrow> path \<Rightarrow> path list \<Rightarrow> path \<Rightarrow> world \<Rightarrow> row option \<times> world" where
  "generate_compressed_images E src_img in_files input_image w =
     (case encode_loop E src_img input_image in_files unset
             (print (begin_line E ''generate_compressed_images'') w) of
        (Inr vars, w1) \<Rightarrow>
          (Some (map vars catalog), print (success_line E ''generate_compressed_images'') w1)
      | (Inl err, w1) \<Rightarrow>
          (None, print (fail_line E ''generate_compressed_images'' err) w1))"

subsection \<open>\<^verbatim>\<open>calculate_file_size\<close>\<close>

fun size_loop ::
  "env \<Rightarrow> path \<Rightarrow> path list \<Rightarrow> (variant \<Rightarrow> cell) \<Rightarrow> world \<Rightarrow>
     (exn + (variant \<Rightarrow> cell)) \<times> world" where
  "size_loop E src_img [] vars w = (Inr vars, w)"
| "size_loop E src_img (file # rest) vars w =
     (case branch src_img file of
        None \<Rightarrow> size_loop E src_img rest vars w
      | Some v \<Rightarrow>
          (case os_path_getsize E file w of
             (Inl e, w1) \<Rightarrow> (Inl e, w1)
           | (Inr n, w1) \<Rightarrow> size_loop E src_img rest (vars(v := Str (size_si E n))) w1))"

definition calculate_file_size ::
  "env \<Rightarrow> path \<Rightarrow> path list \<Rightarrow> world \<Rightarrow> row option \<times> world" where
  "calculate_file_size E src_img in_files w =
     (case size_loop E src_img in_files unset
             (print (begin_line E ''calculate_file_size'') w) of
        (Inr vars, w1) \<Rightarrow>
          (Some (map vars catalog), print (success_line E ''calculate_file_size'') w1)
      | (Inl err, w1) \<Rightarrow>
          (None, print (fail_line E ''calculate_file_size'' err) w1))"

subsection \<open>\<^verbatim>\<open>calculate_read_times\<close>\<close>

fun read_loop ::
  "env \<Rightarrow> path \<Rightarrow> path list \<Rightarrow> (variant \<Rightarrow> cell) \<Rightarrow> world \<Rightarrow>
     (exn + (variant \<Rightarrow> cell)) \<times> world" where
  "read_loop E src_img [] vars w = (Inr vars, w)"
| "read_loop E src_img (file # rest) vars w =
     (case branch src_img file of
        None \<Rightarrow> read_loop E src_img rest vars w
      | Some v \<Rightarrow>
          (case time_time E w of (start_time, w1) \<Rightarrow>
             (case read_tif E file w1 of
                (Inl e, w2) \<Rightarrow> (Inl e, w2)
              | (Inr u, w2) \<Rightarrow>
                  (case time_time E w2 of (t, w3) \<Rightarrow>
                     read_loop E src_img rest (vars(v := Secs (t - start_time))) w3))))"

definition calculate_read_times ::
  "env \<Rightarrow> path \<Rightarrow> path list \<Rightarrow> world \<Rightarrow> row option \<times> world" where
  "calculate_read_times E src_img in_files w =
     (case read_loop E src_img in_files unset
             (print (begin_line E ''calculate_read_times'') w) of
        (Inr vars, w1) \<Rightarrow>
          (Some (map vars catalog), print (success_line E ''calculate_read_times'') w1)
      | (Inl err, w1) \<Rightarrow>
          (None, print (fail_line E ''calculate_read_times'' err) w1))"

subsection \<open>\<^verbatim>\<open>remove_directory\<close>\<close>

fun remove_loop :: "env \<Rightarrow> path list \<Rightarrow> world \<Rightarrow> (exn + unit) \<times> world" where
  "remove_loop E [] w = (Inr (), w)"
| "remove_loop E (file # rest) w =
     (case os_remove E file w of
        (Inl e, w1) \<Rightarrow> (Inl e, w1)
      | (Inr u, w1) \<Rightarrow> remove_loop E rest w1)"

text \<open>
  The function returns nothing; the model returns the world it leaves. Its docstring in
  the source is the one of \<^verbatim>\<open>print_results\<close> and speaks of a table; the body deletes
  the files and the directory, and the body is what is modelled.
\<close>

definition remove_directory :: "env \<Rightarrow> path list \<Rightarrow> path \<Rightarrow> world \<Rightarrow> world" where
  "remove_directory E in_files delete_directory w =
     (case remove_loop E in_files (print (begin_line E ''remove_directory'') w) of
        (Inl err, w1) \<Rightarrow> print (fail_line E ''remove_directory'' err) w1
      | (Inr u, w1) \<Rightarrow>
          (case os_removedirs E delete_directory w1 of
             (Inl err, w2) \<Rightarrow> print (fail_line E ''remove_directory'' err) w2
           | (Inr u', w2) \<Rightarrow> print (success_line E ''remove_directory'') w2))"

subsection \<open>\<^verbatim>\<open>print_results\<close>\<close>

definition print_results ::
  "env \<Rightarrow> row option \<Rightarrow> row option \<Rightarrow> row option \<Rightarrow> string list \<Rightarrow> string list \<Rightarrow>
     world \<Rightarrow> world" where
  "print_results E in_sizes in_writes in_reads in_rows in_columns w =
     (let w1 = emit (DataFrame [in_sizes, in_writes, in_reads] in_rows in_columns)
                 (print (begin_line E ''print_results'') w) in
      case data_frame E [in_sizes, in_writes, in_reads] in_rows in_columns of
        Inl err \<Rightarrow> print (fail_line E ''print_results'' err) w1
      | Inr table \<Rightarrow> print (success_line E ''print_results'') (print table w1))"

subsection \<open>\<^verbatim>\<open>main\<close> and the module\<close>

text \<open>
  No statement of \<^verbatim>\<open>main\<close>'s body raises in this model (every stage catches what it
  raises), so its own handler has no branch here.
\<close>

definition main :: "env \<Rightarrow> path \<Rightarrow> world \<Rightarrow> world" where
  "main E src_img w =
     (case time_time E w of (start, w0) \<Rightarrow>
      case generate_compressed_images E src_img (files src_img) src_img
             (print (begin_line E ''main'') w0) of (writes, w1) \<Rightarrow>
      case calculate_file_size E src_img (files src_img) w1 of (sizes, w2) \<Rightarrow>
      case calculate_read_times E src_img (files src_img) w2 of (reads, w3) \<Rightarrow>
      case time_time E
             (print (success_line E ''main'')
               (print_results E sizes writes reads rows columns
                 (remove_directory E (files src_img) (tmp_dir src_img) w3))) of (end', w4) \<Rightarrow>
      print (''Run Time = '' @ str_float E (end' - start) @ '' seconds'') w4)"

text \<open>
  Lines 34 to 36, run when the module is loaded:
  \<^verbatim>\<open>if not os.path.exists(tmp_dir): os.makedirs(tmp_dir)\<close>.
\<close>

definition prepare :: "env \<Rightarrow> path \<Rightarrow> world \<Rightarrow> (exn + unit) \<times> world" where
  "prepare E src_img w =
     (case os_path_exists (tmp_dir src_img) w of (present, w1) \<Rightarrow>
        if \<not> present then os_makedirs E (tmp_dir src_img) w1 else (Inr (), w1))"

text \<open>
  The whole script: an exception at module level is not caught and ends the run
  before \<^verbatim>\<open>main\<close>.
\<close>

definition script :: "env \<Rightarrow> path \<Rightarrow> world \<Rightarrow> exn option \<times> world" where
  "script E src_img w =
     (case prepare E src_img w of
        (Inl e, w1) \<Rightarrow> (Some e, w1)
      | (Inr u, w1) \<Rightarrow> (None, main E src_img w1))"


section \<open>Notions the properties are stated with\<close>

text \<open>The artifact path of a variant: the global the variant's branch compares with.\<close>

definition artifact :: "path \<Rightarrow> variant \<Rightarrow> path" where
  "artifact src_img v =
     (case v of
        Uncompressed \<Rightarrow> uncompressed src_img
      | Packbits \<Rightarrow> packbits src_img
      | Deflate_1 \<Rightarrow> deflate_1 src_img
      | Deflate_2 \<Rightarrow> deflate_2 src_img
      | Lzw_1 \<Rightarrow> lzw_1 src_img
      | Lzw_2 \<Rightarrow> lzw_2 src_img)"

text \<open>The stage an operation belongs to.\<close>

datatype stage = Startup | Encode | Inspect | Decode | Cleanup | Report

fun stage_of :: "event \<Rightarrow> stage" where
  "stage_of (Exists p) = Startup"
| "stage_of (Mkdir p) = Startup"
| "stage_of (Open p) = Encode"
| "stage_of (Translate d s c) = Encode"
| "stage_of (Getsize p) = Inspect"
| "stage_of (ReadTif p) = Decode"
| "stage_of (Remove p) = Cleanup"
| "stage_of (Rmdir p) = Cleanup"
| "stage_of (DataFrame rs ix cs) = Report"

text \<open>The destinations of the encodes in a list of operations, in order.\<close>

fun dests :: "event \<Rightarrow> path list" where
  "dests (Translate d s c) = [d]"
| "dests e = []"

definition encoded :: "event list \<Rightarrow> path list" where
  "encoded evs = concat (map dests evs)"

text \<open>The size of a regular file on the disk.\<close>

definition file_size :: "fsys \<Rightarrow> path \<Rightarrow> nat" where
  "file_size d p = (case lookup d p of Some (File n) \<Rightarrow> n | _ \<Rightarrow> 0)"

definition is_secs :: "cell \<Rightarrow> bool" where
  "is_secs c = (case c of Secs t \<Rightarrow> True | Str s \<Rightarrow> False)"

definition is_size :: "env \<Rightarrow> cell \<Rightarrow> bool" where
  "is_size E c = (\<exists>n. c = Str (size_si E n))"

text \<open>
  How many of the paths are catalog paths: the files a loop does not skip. The encode
  loop reads the clock once for every file and once more for each of these; the read
  loop reads it twice for each of these.
\<close>

definition members :: "path \<Rightarrow> path list \<Rightarrow> nat" where
  "members src_img xs = length (filter (\<lambda>x. branch src_img x \<noteq> None) xs)"

text \<open>The size \<^verbatim>\<open>os.path.getsize\<close> returns for a path that is there.\<close>

definition st_size :: "env \<Rightarrow> fsys \<Rightarrow> path \<Rightarrow> nat" where
  "st_size E d p = (case lookup d p of Some (File n) \<Rightarrow> n | _ \<Rightarrow> dir_st_size E p)"

text \<open>
  From \<open>w\<close> to \<open>w'\<close> only operations of stage \<open>k\<close> were added to the trace
  (\<open>traced\<close>), and nothing was printed (\<open>extends\<close>).
\<close>

definition extends :: "stage \<Rightarrow> world \<Rightarrow> world \<Rightarrow> bool" where
  "extends k w w' \<longleftrightarrow>
     (\<exists>evs. trace w' = trace w @ evs \<and> list_all (\<lambda>e. stage_of e = k) evs) \<and>
     stdout w' = stdout w"

definition traced :: "stage \<Rightarrow> world \<Rightarrow> world \<Rightarrow> bool" where
  "traced k w w' \<longleftrightarrow> (\<exists>evs. trace w' = trace w @ evs \<and> list_all (\<lambda>e. stage_of e = k) evs)"

section \<open>A concrete world\<close>

text \<open>
  An environment in which everything works, for the examples: the engine raises on a
  source that is not a regular file and otherwise writes an artifact (half the source's
  size under compression), decoding raises on a missing artifact, and the table is built
  when every row is a list as long as the column labels.
\<close>

definition demo_env :: env where
  "demo_env =
     \<lparr>script_name = ''CompareCompression.py'',
      clock = (\<lambda>n. int n),
      str_float = (\<lambda>d. ''0.0''),
      os_fault = (\<lambda>e. None),
      dir_st_size = (\<lambda>p. 4096),
      open_raises = (\<lambda>d p. if lookup d p = None then Some (EngineError ''not recognized as a supported file format'') else None),
      translate_result = (\<lambda>d dest src cmd.
         case lookup d src of
           Some (File n) \<Rightarrow> Inr ((dest, File (n div (if cmd = command Uncompressed then 1 else 2))) # unlink dest d)
         | _ \<Rightarrow> Inl (EngineError ''Received a NULL pointer'')),
      read_raises = (\<lambda>d p. case lookup d p of Some (File n) \<Rightarrow> None | _ \<Rightarrow> Some (EngineError ''NoneType object has no attribute ReadAsArray'')),
      size_si = (\<lambda>n. if 1000 \<le> n then ''K'' else ''B''),
      data_frame = (\<lambda>rs ix cs.
         if length rs = length ix \<and> list_all (\<lambda>r. case r of None \<Rightarrow> False | Some r \<Rightarrow> length r = length cs) rs
         then Inr ''table'' else Inl (EngineError ''Shape of passed values''))\<rparr>"

definition demo_world :: world where
  "demo_world =
     \<lparr>disk = [(''/'', Dir), (''/data'', Dir), (''/data/in'', Dir), (''/data/in/dem.tif'', File 40000)],
      ticks = 0, stdout = [], trace = []\<rparr>"


text \<open>
  The world after the scratch directory was made; with all six artifacts written; with
  all but \<^verbatim>\<open>packbits.tif\<close>; and a world where artifacts of an earlier run lie in a
  scratch directory whose parent holds nothing else, the source image gone.
\<close>

definition ready_world :: world where
  "ready_world = demo_world\<lparr>disk := (''/data/in/tmp'', Dir) # disk demo_world\<rparr>"

definition full_world :: world where
  "full_world =
     demo_world\<lparr>disk :=
       [(''/data/in/tmp/lzw_2.tif'', File 20000), (''/data/in/tmp/lzw_1.tif'', File 20000),
        (''/data/in/tmp/deflate_2.tif'', File 20000), (''/data/in/tmp/deflate_1.tif'', File 20000),
        (''/data/in/tmp/packbits.tif'', File 20000), (''/data/in/tmp/uncompressed.tif'', File 40000),
        (''/data/in/tmp'', Dir)] @ disk demo_world\<rparr>"

definition partial_world :: world where
  "partial_world = full_world\<lparr>disk := unlink ''/data/in/tmp/packbits.tif'' (disk full_world)\<rparr>"

definition stale_world :: world where
  "stale_world =
     \<lparr>disk =
        [(''/old/run/tmp/lzw_2.tif'', File 20000), (''/old/run/tmp/lzw_1.tif'', File 20000),
         (''/old/run/tmp/deflate_2.tif'', File 20000), (''/old/run/tmp/deflate_1.tif'', File 20000),
         (''/old/run/tmp/packbits.tif'', File 20000), (''/old/run/tmp/uncompressed.tif'', File 40000),
         (''/old/run/tmp'', Dir), (''/old/run'', Dir), (''/old'', Dir), (''/'', Dir)],
      ticks = 0, stdout = [], trace = []\<rparr>"

text \<open>
  The same environment, but the encode to \<^verbatim>\<open>packbits.tif\<close> raises (a full disk);
  and one where deleting \<^verbatim>\<open>packbits.tif\<close> is not permitted.
\<close>

definition packbits_fails :: env where
  "packbits_fails =
     demo_env\<lparr>translate_result := (\<lambda>d dest src cmd.
        if dest = ''/data/in/tmp/packbits.tif'' then Inl (EngineError ''No space left on device'')
        else translate_result demo_env d dest src cmd)\<rparr>"

definition packbits_locked :: env where
  "packbits_locked =
     demo_env\<lparr>os_fault := (\<lambda>e.
        if e = Remove ''/data/in/tmp/packbits.tif'' then Some ''[Errno 13] Permission denied''
        else None)\<rparr>"

text \<open>
  An environment whose engine never raises and whose clock tells the readings apart:
  the n-th reading is the square of n, so that the k-th duration is 2k + 1.
\<close>

definition steady_env :: env where
  "steady_env =
     demo_env\<lparr>clock := (\<lambda>n. int (n * n)),
              open_raises := (\<lambda>d p. None),
              translate_result := (\<lambda>d dest src cmd. Inr ((dest, File 20000) # unlink dest d))\<rparr>"

section \<open>Properties of the paths\<close>

lemma takeWhile_nosep:
  "sep \<notin> set n \<Longrightarrow> takeWhile (\<lambda>c. c \<noteq> sep) (n @ r) = n @ takeWhile (\<lambda>c. c \<noteq> sep) r"
  by (induction n) auto

lemma dropWhile_nosep:
  "sep \<notin> set n \<Longrightarrow> dropWhile (\<lambda>c. c \<noteq> sep) (n @ r) = dropWhile (\<lambda>c. c \<noteq> sep) r"
  by (induction n) auto

lemma takeWhile_nosep_all:
  "sep \<notin> set n \<Longrightarrow> takeWhile (\<lambda>c. c \<noteq> sep) n = n"
  by (induction n) auto

lemma basename_after_sep:
  assumes "sep \<notin> set n" and "x = [] \<or> last x = sep"
  shows "basename (x @ n) = n"
proof (cases x rule: rev_cases)
  case Nil
  have h: "takeWhile (\<lambda>c. c \<noteq> sep) (rev n) = rev n"
    by (rule takeWhile_nosep_all) (simp add: assms(1))
  show ?thesis unfolding basename_def Nil append_Nil h by simp
next
  case (snoc y c)
  with assms(2) have "c = sep" by simp
  with snoc assms(1) takeWhile_nosep[of "rev n" "sep # rev y"] show ?thesis
    by (simp add: basename_def)
qed

lemma rstrip_sep_id: "a \<noteq> [] \<Longrightarrow> last a \<noteq> sep \<Longrightarrow> rstrip_sep a = a"
  by (cases a rule: rev_cases) (simp_all add: rstrip_sep_def)

lemma rstrip_sep_snoc: "rstrip_sep (a @ [sep]) = rstrip_sep a"
  by (simp add: rstrip_sep_def)

lemma not_all_sep:
  assumes "a \<noteq> []" and "last a \<noteq> sep"
  shows "a @ r \<noteq> replicate k sep"
proof
  assume "a @ r = replicate k sep"
  then have "set (a @ r) \<subseteq> {sep}" by (simp add: set_replicate_conv_if)
  moreover have "last a \<in> set (a @ r)" using assms(1) by simp
  ultimately show False using assms(2) by blast
qed

lemma dirname_append_sep:
  assumes "sep \<notin> set n" and "a \<noteq> []" and "last a \<noteq> sep"
  shows "dirname (a @ sep # n) = a"
proof -
  have h: "rev (dropWhile (\<lambda>c. c \<noteq> sep) (rev (a @ sep # n))) = a @ [sep]"
    using assms(1) dropWhile_nosep[of "rev n" "sep # rev a"] by simp
  have ne: "a @ [sep] \<noteq> sep # replicate (length a) sep"
    using not_all_sep[OF assms(2,3), of "[sep]" "Suc (length a)"] by simp
  show ?thesis
    unfolding dirname_def h Let_def using assms(2,3) ne
    by (simp add: rstrip_sep_snoc rstrip_sep_id)
qed

lemma dirname_after_seps:
  assumes "sep \<notin> set n"
  shows "dirname (replicate k sep @ n) = replicate k sep"
proof -
  have "dropWhile (\<lambda>c. c \<noteq> sep) (rev n @ replicate k sep) = replicate k sep"
    using assms dropWhile_nosep[of "rev n" "replicate k sep"] by (cases k) simp_all
  then have h: "rev (dropWhile (\<lambda>c. c \<noteq> sep) (rev (replicate k sep @ n))) = replicate k sep"
    by simp
  show ?thesis unfolding dirname_def h Let_def by simp
qed

lemma rstrip_sep_shape:
  "h = replicate (length h) sep \<or> rstrip_sep h \<noteq> [] \<and> last (rstrip_sep h) \<noteq> sep"
proof (cases "dropWhile (\<lambda>c. c = sep) (rev h) = []")
  case True
  then have "\<forall>c\<in>set h. c = sep" by (simp add: dropWhile_eq_Nil_conv)
  then have "h = replicate (length h) sep" by (simp add: replicate_length_same)
  then show ?thesis by simp
next
  case False
  then have "hd (dropWhile (\<lambda>c. c = sep) (rev h)) \<noteq> sep" by (rule hd_dropWhile)
  with False show ?thesis by (simp add: rstrip_sep_def last_rev)
qed

lemma dirname_shape:
  "(\<exists>k. dirname p = replicate k sep) \<or> (dirname p \<noteq> [] \<and> last (dirname p) \<noteq> sep)"
proof -
  define h where "h = rev (dropWhile (\<lambda>c. c \<noteq> sep) (rev p))"
  have d: "dirname p = (if h \<noteq> [] \<and> h \<noteq> replicate (length h) sep then rstrip_sep h else h)"
    by (simp add: dirname_def h_def Let_def)
  show ?thesis
  proof (cases "h = replicate (length h) sep")
    case True
    then have "dirname p = replicate (length h) sep" using d by simp
    then show ?thesis by blast
  next
    case False
    then have "h \<noteq> []" by auto
    with False d have "dirname p = rstrip_sep h" by simp
    with False rstrip_sep_shape[of h] show ?thesis by simp
  qed
qed

lemma tmp_dir_shape:
  "\<exists>x. tmp_dir src = x @ ''tmp'' \<and> (x = [] \<or> last x = sep) \<and> dirname (x @ ''tmp'') = dirname src"
proof -
  have ns: "sep \<notin> set ''tmp''" by (simp add: sep_def)
  have hd: "hd ''tmp'' \<noteq> sep" by (simp add: sep_def)
  from dirname_shape[of src] show ?thesis
  proof
    assume "\<exists>k. dirname src = replicate k sep"
    then obtain k where k: "dirname src = replicate k sep" ..
    have "tmp_dir src = replicate k sep @ ''tmp''"
      using hd by (cases k) (simp_all add: tmp_dir_def join_def k)
    moreover have "replicate k sep = [] \<or> last (replicate k sep) = sep" by (cases k) simp_all
    ultimately show ?thesis using dirname_after_seps[OF ns, of k] k by metis
  next
    assume a: "dirname src \<noteq> [] \<and> last (dirname src) \<noteq> sep"
    then have "tmp_dir src = (dirname src @ [sep]) @ ''tmp''"
      using hd by (simp add: tmp_dir_def join_def)
    moreover have "dirname ((dirname src @ [sep]) @ ''tmp'') = dirname src"
      using dirname_append_sep[OF ns, of "dirname src"] a by simp
    ultimately show ?thesis by (metis last_snoc)
  qed
qed

lemma tmp_dir_basename: "basename (tmp_dir src) = ''tmp''"
proof -
  obtain x where x: "tmp_dir src = x @ ''tmp''" "x = [] \<or> last x = sep"
    using tmp_dir_shape[of src] by blast
  have "sep \<notin> set ''tmp''" by (simp add: sep_def)
  then have "basename (x @ ''tmp'') = ''tmp''" using x(2) by (rule basename_after_sep)
  with x(1) show ?thesis by simp
qed

lemma tmp_dir_dirname: "dirname (tmp_dir src) = dirname src"
  using tmp_dir_shape[of src] by auto

lemma tmp_dir_last: "tmp_dir src \<noteq> [] \<and> last (tmp_dir src) \<noteq> sep"
  using tmp_dir_shape[of src] by (auto simp: sep_def)

lemma join_tmp_dir:
  "n \<noteq> [] \<Longrightarrow> hd n \<noteq> sep \<Longrightarrow> join (tmp_dir src) n = tmp_dir src @ sep # n"
  using tmp_dir_last[of src] by (simp add: join_def)

lemma artifact_basename:
  "n \<noteq> [] \<Longrightarrow> sep \<notin> set n \<Longrightarrow> basename (join (tmp_dir src) n) = n"
  using basename_after_sep[of n "tmp_dir src @ [sep]"] join_tmp_dir[of n src]
  by (cases n) auto

lemma artifact_dirname:
  "n \<noteq> [] \<Longrightarrow> sep \<notin> set n \<Longrightarrow> dirname (join (tmp_dir src) n) = tmp_dir src"
  using dirname_append_sep[of n "tmp_dir src"] join_tmp_dir[of n src] tmp_dir_last[of src]
  by (cases n) auto


text \<open>
  C8: for every source image path, the scratch directory is named \<^verbatim>\<open>tmp\<close> and lies in
  the directory of the source image, and the six artifact paths are the files
  \<^verbatim>\<open>uncompressed.tif\<close>, \<^verbatim>\<open>packbits.tif\<close>, \<^verbatim>\<open>deflate_1.tif\<close>, \<^verbatim>\<open>deflate_2.tif\<close>,
  \<^verbatim>\<open>lzw_1.tif\<close>, \<^verbatim>\<open>lzw_2.tif\<close> of the scratch directory, in that order.
\<close>

theorem scratch_layout:
  "basename (tmp_dir src_img) = ''tmp'' \<and>
   dirname (tmp_dir src_img) = dirname src_img \<and>
   map basename (files src_img) =
     [''uncompressed.tif'', ''packbits.tif'', ''deflate_1.tif'',
      ''deflate_2.tif'', ''lzw_1.tif'', ''lzw_2.tif''] \<and>
   map dirname (files src_img) = replicate 6 (tmp_dir src_img)"
proof -
  have "map basename (files src_img) =
     [''uncompressed.tif'', ''packbits.tif'', ''deflate_1.tif'',
      ''deflate_2.tif'', ''lzw_1.tif'', ''lzw_2.tif'']"
    by (simp add: files_def uncompressed_def packbits_def deflate_1_def deflate_2_def
        lzw_1_def lzw_2_def artifact_basename sep_def)
  moreover have "map dirname (files src_img) = replicate 6 (tmp_dir src_img)"
    by (simp add: files_def uncompressed_def packbits_def deflate_1_def deflate_2_def
        lzw_1_def lzw_2_def artifact_dirname sep_def numeral_eq_Suc)
  ultimately show ?thesis by (simp add: tmp_dir_basename tmp_dir_dirname)
qed

theorem scratch_layout_witness:
  "tmp_dir ''/data/in/dem.tif'' = ''/data/in/tmp'' \<and>
   files ''/data/in/dem.tif'' =
     [''/data/in/tmp/uncompressed.tif'', ''/data/in/tmp/packbits.tif'',
      ''/data/in/tmp/deflate_1.tif'', ''/data/in/tmp/deflate_2.tif'',
      ''/data/in/tmp/lzw_1.tif'', ''/data/in/tmp/lzw_2.tif''] \<and>
   basename (tmp_dir ''/data/in/dem.tif'') = ''tmp'' \<and>
   dirname (tmp_dir ''/data/in/dem.tif'') = dirname ''/data/in/dem.tif''"
  using scratch_layout[of "''/data/in/dem.tif''"]
  by (simp add: files_def uncompressed_def packbits_def deflate_1_def deflate_2_def
        lzw_1_def lzw_2_def tmp_dir_def join_def dirname_def rstrip_sep_def sep_def)

section \<open>The scratch directory when the module is loaded\<close>

text \<open>The recursive equations are unfolded by hand; the definitions evaluate concrete runs.\<close>

declare os_makedirs.simps [simp del] prune.simps [simp del]

lemmas path_defs = sep_def basename_def rstrip_sep_def dirname_def join_def tmp_dir_def
  uncompressed_def packbits_def deflate_1_def deflate_2_def lzw_1_def lzw_2_def files_def
  split_last_def

lemmas os_defs = emit_def print_def time_time_def lookup_def children_def unlink_def
  os_path_exists_def os_mkdir_def os_remove_def os_rmdir_def os_removedirs_def
  os_path_getsize_def gdal_Open_def gdal_Translate_def read_tif_def

lemmas stage_defs = generate_compressed_images_def calculate_file_size_def
  calculate_read_times_def remove_directory_def print_results_def main_def prepare_def
  script_def branch_def begin_line_def success_line_def fail_line_def unset_def catalog_def
  co_def quoted_def rows_def columns_def

lemma split_last_tmp_dir: "split_last (tmp_dir src_img) = (dirname src_img, ''tmp'')"
  by (simp add: split_last_def tmp_dir_basename tmp_dir_dirname)

lemma os_mkdir_creates:
  "os_mkdir E p w = (Inr u, w1) \<Longrightarrow> lookup (disk w1) p = Some Dir"
  by (auto simp: os_mkdir_def Let_def lookup_def emit_def
      split: option.splits if_splits node.splits)

lemma os_makedirs_creates:
  assumes "os_makedirs E name w = (Inr u, w1)" and "snd (split_last name) \<noteq> ''.''"
  shows "lookup (disk w1) name = Some Dir"
  using assms
  by (subst (asm) os_makedirs.simps)
     (auto split: if_splits prod.splits sum.splits exn.splits dest: os_mkdir_creates)

lemma prepare_creates:
  assumes "prepare E src_img w = (Inr u, w1)"
  shows "lookup (disk w1) (tmp_dir src_img) \<noteq> None"
proof (cases "lookup (disk w) (tmp_dir src_img) = None")
  case True
  with assms have "os_makedirs E (tmp_dir src_img) (emit (Exists (tmp_dir src_img)) w) = (Inr u, w1)"
    by (simp add: prepare_def os_path_exists_def)
  then have "lookup (disk w1) (tmp_dir src_img) = Some Dir"
    by (rule os_makedirs_creates) (simp add: split_last_tmp_dir)
  then show ?thesis by simp
next
  case False
  with assms show ?thesis
    by (auto simp: prepare_def os_path_exists_def emit_def)
qed

lemma prepare_present:
  "lookup (disk w) (tmp_dir src_img) \<noteq> None \<Longrightarrow>
   prepare E src_img w = (Inr (), emit (Exists (tmp_dir src_img)) w)"
  by (simp add: prepare_def os_path_exists_def)

lemma demo_tmp: "tmp_dir ''/data/in/dem.tif'' = ''/data/in/tmp''"
  by (simp add: path_defs)

lemma demo_prepare:
  "prepare demo_env ''/data/in/dem.tif'' demo_world =
     (Inr (), \<lparr>disk = (''/data/in/tmp'', Dir) # disk demo_world, ticks = 0, stdout = [],
               trace = [Exists ''/data/in/tmp'', Mkdir ''/data/in/tmp'']\<rparr>)"
  by (simp add: prepare_def demo_tmp os_makedirs.simps path_defs os_defs demo_env_def demo_world_def)

text \<open>
  C7: creating the scratch directory is idempotent. When the scratch directory is already
  there, the step of lines 35 and 36 only looks (one \<^verbatim>\<open>os.path.exists\<close>), creates
  nothing and returns without an exception; and after a run of the step that returned
  without an exception, a second run does just that.
\<close>

theorem prepare_idempotent:
  "(lookup (disk w) (tmp_dir src_img) \<noteq> None \<longrightarrow>
      prepare E src_img w = (Inr (), emit (Exists (tmp_dir src_img)) w)) \<and>
   (\<forall>w1. prepare E src_img w = (Inr (), w1) \<longrightarrow>
      prepare E src_img w1 = (Inr (), emit (Exists (tmp_dir src_img)) w1))"
  using prepare_present prepare_creates by blast

theorem prepare_idempotent_witness:
  "prepare demo_env ''/data/in/dem.tif'' demo_world =
     (Inr (), \<lparr>disk = (''/data/in/tmp'', Dir) # disk demo_world, ticks = 0, stdout = [],
               trace = [Exists ''/data/in/tmp'', Mkdir ''/data/in/tmp'']\<rparr>) \<and>
   prepare demo_env ''/data/in/dem.tif''
     \<lparr>disk = (''/data/in/tmp'', Dir) # disk demo_world, ticks = 0, stdout = [],
      trace = [Exists ''/data/in/tmp'', Mkdir ''/data/in/tmp'']\<rparr> =
     (Inr (), \<lparr>disk = (''/data/in/tmp'', Dir) # disk demo_world, ticks = 0, stdout = [],
               trace = [Exists ''/data/in/tmp'', Mkdir ''/data/in/tmp'', Exists ''/data/in/tmp'']\<rparr>)"
proof -
  have t: "tmp_dir ''/data/in/dem.tif'' = ''/data/in/tmp''"
    by (simp add: path_defs)
  from demo_prepare prepare_idempotent[of demo_world "''/data/in/dem.tif''" demo_env]
  show ?thesis by (simp add: t emit_def)
qed

text \<open>
  C5, as the code has it: the module does not look at the source image before it creates
  the scratch directory. For a source image path that does not exist, with the scratch
  directory absent, the directory of the source present and no operating-system failure
  of the \<^verbatim>\<open>mkdir\<close>, the step creates the scratch directory, touches nothing else, and
  returns without an exception; the script then runs \<^verbatim>\<open>main\<close> and ends with no
  uncaught exception.
\<close>

theorem prepare_without_input_check:
  assumes "lookup (disk w) src_img = None"
    and "lookup (disk w) (tmp_dir src_img) = None"
    and "dirname src_img = [] \<or> lookup (disk w) (dirname src_img) = Some Dir"
    and "os_fault E (Mkdir (tmp_dir src_img)) = None"
  shows "prepare E src_img w =
           (Inr (), w\<lparr>disk := (tmp_dir src_img, Dir) # disk w,
                      trace := trace w @ [Exists (tmp_dir src_img), Mkdir (tmp_dir src_img)]\<rparr>) \<and>
         fst (script E src_img w) = None"
proof -
  let ?t = "tmp_dir src_img"
  let ?w1 = "emit (Exists ?t) w"
  have mk: "os_mkdir E ?t ?w1 =
      (Inr (), w\<lparr>disk := (?t, Dir) # disk w, trace := trace w @ [Exists ?t, Mkdir ?t]\<rparr>)"
    using assms(2,3,4)
    by (auto simp: os_mkdir_def Let_def emit_def tmp_dir_dirname)
  have "os_makedirs E ?t ?w1 = os_mkdir E ?t ?w1"
    using assms(3)
    by (subst os_makedirs.simps) (auto simp: split_last_tmp_dir emit_def)
  with mk assms(2) have p: "prepare E src_img w =
      (Inr (), w\<lparr>disk := (?t, Dir) # disk w, trace := trace w @ [Exists ?t, Mkdir ?t]\<rparr>)"
    by (simp add: prepare_def os_path_exists_def)
  then show ?thesis by (simp add: script_def)
qed

theorem prepare_without_input_check_witness:
  "lookup (disk demo_world) ''/data/in/missing.tif'' = None \<and>
   prepare demo_env ''/data/in/missing.tif'' demo_world =
     (Inr (), \<lparr>disk = (''/data/in/tmp'', Dir) # disk demo_world, ticks = 0, stdout = [],
               trace = [Exists ''/data/in/tmp'', Mkdir ''/data/in/tmp'']\<rparr>) \<and>
   fst (script demo_env ''/data/in/missing.tif'' demo_world) = None"
proof -
  have t: "tmp_dir ''/data/in/missing.tif'' = ''/data/in/tmp''"
    and d: "dirname ''/data/in/missing.tif'' = ''/data/in''"
    by (simp_all add: path_defs)
  have h1: "lookup (disk demo_world) ''/data/in/missing.tif'' = None"
    and h2: "lookup (disk demo_world) (tmp_dir ''/data/in/missing.tif'') = None"
    and h3: "dirname ''/data/in/missing.tif'' = [] \<or>
      lookup (disk demo_world) (dirname ''/data/in/missing.tif'') = Some Dir"
    and h4: "os_fault demo_env (Mkdir (tmp_dir ''/data/in/missing.tif'')) = None"
    by (simp_all add: t d demo_world_def demo_env_def lookup_def)
  from prepare_without_input_check[OF h1 h2 h3 h4] h1
  show ?thesis by (simp add: t demo_world_def)
qed

text \<open>
  The claim as the specification states it (a missing source fails fast, before any
  scratch directory is created) fails: here neither the source nor its directory exists,
  and the step creates both the directory and the scratch directory in it, with no error.
\<close>

theorem fail_fast_counterexample:
  "lookup (disk demo_world) ''/data/out/missing.tif'' = None \<and>
   lookup (disk demo_world) ''/data/out'' = None \<and>
   fst (prepare demo_env ''/data/out/missing.tif'' demo_world) = Inr () \<and>
   disk (snd (prepare demo_env ''/data/out/missing.tif'' demo_world)) =
     (''/data/out/tmp'', Dir) # (''/data/out'', Dir) # disk demo_world \<and>
   fst (script demo_env ''/data/out/missing.tif'' demo_world) = None"
proof -
  have t: "tmp_dir ''/data/out/missing.tif'' = ''/data/out/tmp''"
    by (simp add: path_defs)
  have p: "prepare demo_env ''/data/out/missing.tif'' demo_world =
     (Inr (), \<lparr>disk = (''/data/out/tmp'', Dir) # (''/data/out'', Dir) # disk demo_world,
        ticks = 0, stdout = [],
        trace = [Exists ''/data/out/tmp'', Mkdir ''/data/out'', Mkdir ''/data/out/tmp'']\<rparr>)"
    by (simp add: prepare_def t os_makedirs.simps path_defs os_defs demo_env_def demo_world_def)
  show ?thesis
    by (simp add: p script_def) (simp add: demo_world_def lookup_def)
qed

section \<open>The catalog and the branches\<close>

lemma artifact_eq:
  "uncompressed src = tmp_dir src @ sep # ''uncompressed.tif''"
  "packbits src = tmp_dir src @ sep # ''packbits.tif''"
  "deflate_1 src = tmp_dir src @ sep # ''deflate_1.tif''"
  "deflate_2 src = tmp_dir src @ sep # ''deflate_2.tif''"
  "lzw_1 src = tmp_dir src @ sep # ''lzw_1.tif''"
  "lzw_2 src = tmp_dir src @ sep # ''lzw_2.tif''"
  by (simp_all add: uncompressed_def packbits_def deflate_1_def deflate_2_def lzw_1_def
      lzw_2_def join_tmp_dir sep_def)

lemma files_artifact: "files src = map (artifact src) catalog"
  by (simp add: files_def catalog_def artifact_def)

lemma branch_artifact: "branch src (artifact src v) = Some v"
  by (cases v) (simp_all add: branch_def artifact_def artifact_eq)

lemma branch_Some: "branch src f = Some v \<Longrightarrow> f = artifact src v"
  by (auto simp: branch_def artifact_def split: if_splits)

lemma branch_iff: "branch src f = Some v \<longleftrightarrow> f = artifact src v"
  using branch_artifact branch_Some by blast

lemma artifact_inj: "artifact src u = artifact src v \<Longrightarrow> u = v"
  by (metis branch_artifact option.inject)

lemma distinct_files: "distinct (files src)"
  by (simp add: files_def artifact_eq)

lemma length_catalog: "length catalog = 6"
  by (simp add: catalog_def)

lemma length_files: "length (files src) = 6"
  by (simp add: files_def)

section \<open>What the operations and the loops leave behind\<close>

lemma extends_refl: "extends k w w"
  by (simp add: extends_def)

lemma extends_trans: "extends k w w1 \<Longrightarrow> extends k w1 w2 \<Longrightarrow> extends k w w2"
  unfolding extends_def by (metis append.assoc list_all_append)

lemma extends_time: "time_time E w = (t, w1) \<Longrightarrow> extends k w w1"
  by (auto simp: time_time_def extends_def)

lemma extends_Open: "gdal_Open E p w = (r, w1) \<Longrightarrow> extends Encode w w1"
  by (auto simp: gdal_Open_def extends_def emit_def Let_def split: option.splits)

lemma extends_Translate: "gdal_Translate E d s c w = (r, w1) \<Longrightarrow> extends Encode w w1"
  by (auto simp: gdal_Translate_def extends_def emit_def Let_def split: sum.splits)

lemma extends_getsize: "os_path_getsize E p w = (r, w1) \<Longrightarrow> extends Inspect w w1"
  by (auto simp: os_path_getsize_def extends_def emit_def Let_def
      split: option.splits node.splits)

lemma extends_read_tif: "read_tif E p w = (r, w1) \<Longrightarrow> extends Decode w w1"
  by (auto simp: read_tif_def extends_def emit_def Let_def split: option.splits)

lemma extends_remove: "os_remove E p w = (r, w1) \<Longrightarrow> extends Cleanup w w1"
  by (auto simp: os_remove_def extends_def emit_def Let_def
      split: option.splits node.splits)

lemma extends_rmdir: "os_rmdir E p w = (r, w1) \<Longrightarrow> extends Cleanup w w1"
  by (auto simp: os_rmdir_def extends_def emit_def Let_def
      split: option.splits node.splits if_splits)

lemma extends_encode_loop:
  "encode_loop E src inp xs vars w = (r, w') \<Longrightarrow> extends Encode w w'"
proof (induction xs arbitrary: vars w)
  case Nil
  then show ?case by (simp add: extends_refl)
next
  case (Cons f xs)
  obtain t0 w1 where t0: "time_time E w = (t0, w1)" by (cases "time_time E w")
  have e1: "extends Encode w w1" using t0 by (rule extends_time)
  show ?case
  proof (cases "branch src f")
    case None
    with Cons.prems t0 have "encode_loop E src inp xs vars w1 = (r, w')" by simp
    then have "extends Encode w1 w'" by (rule Cons.IH)
    with e1 show ?thesis by (rule extends_trans)
  next
    case (Some v)
    obtain r2 w2 where o: "gdal_Open E inp w1 = (r2, w2)" by (cases "gdal_Open E inp w1")
    then have e2: "extends Encode w w2" using e1 extends_Open extends_trans by blast
    show ?thesis
    proof (cases r2)
      case (Inl e)
      with Cons.prems t0 Some o have "w' = w2" by simp
      with e2 show ?thesis by simp
    next
      case (Inr u)
      obtain r3 w3 where tr: "gdal_Translate E f inp (command v) w2 = (r3, w3)"
        by (cases "gdal_Translate E f inp (command v) w2")
      then have e3: "extends Encode w w3" using e2 extends_Translate extends_trans by blast
      show ?thesis
      proof (cases r3)
        case (Inl e)
        with Cons.prems t0 Some o Inr tr have "w' = w3" by simp
        with e3 show ?thesis by simp
      next
        case (Inr u')
        obtain t1 w4 where t1: "time_time E w3 = (t1, w4)" by (cases "time_time E w3")
        then have e4: "extends Encode w w4" using e3 extends_time extends_trans by blast
        from Cons.prems t0 Some o \<open>r2 = Inr u\<close> tr Inr t1
        have "encode_loop E src inp xs (vars(v := Secs (t1 - t0))) w4 = (r, w')" by simp
        then have "extends Encode w4 w'" by (rule Cons.IH)
        with e4 show ?thesis by (rule extends_trans)
      qed
    qed
  qed
qed

lemma extends_size_loop:
  "size_loop E src xs vars w = (r, w') \<Longrightarrow> extends Inspect w w'"
proof (induction xs arbitrary: vars w)
  case Nil
  then show ?case by (simp add: extends_refl)
next
  case (Cons f xs)
  show ?case
  proof (cases "branch src f")
    case None
    with Cons show ?thesis by simp
  next
    case (Some v)
    obtain r1 w1 where g: "os_path_getsize E f w = (r1, w1)" by (cases "os_path_getsize E f w")
    then have e1: "extends Inspect w w1" by (rule extends_getsize)
    show ?thesis
    proof (cases r1)
      case (Inl e)
      with Cons.prems Some g e1 show ?thesis by simp
    next
      case (Inr n)
      with Cons.prems Some g
      have "size_loop E src xs (vars(v := Str (size_si E n))) w1 = (r, w')" by simp
      then have "extends Inspect w1 w'" by (rule Cons.IH)
      with e1 show ?thesis by (rule extends_trans)
    qed
  qed
qed

lemma extends_read_loop:
  "read_loop E src xs vars w = (r, w') \<Longrightarrow> extends Decode w w'"
proof (induction xs arbitrary: vars w)
  case Nil
  then show ?case by (simp add: extends_refl)
next
  case (Cons f xs)
  show ?case
  proof (cases "branch src f")
    case None
    with Cons show ?thesis by simp
  next
    case (Some v)
    obtain t0 w1 where t0: "time_time E w = (t0, w1)" by (cases "time_time E w")
    have e1: "extends Decode w w1" using t0 by (rule extends_time)
    obtain r2 w2 where rd: "read_tif E f w1 = (r2, w2)" by (cases "read_tif E f w1")
    then have e2: "extends Decode w w2" using e1 extends_read_tif extends_trans by blast
    show ?thesis
    proof (cases r2)
      case (Inl e)
      with Cons.prems Some t0 rd e2 show ?thesis by simp
    next
      case (Inr u)
      obtain t1 w3 where t1: "time_time E w2 = (t1, w3)" by (cases "time_time E w2")
      then have e3: "extends Decode w w3" using e2 extends_time extends_trans by blast
      from Cons.prems Some t0 rd Inr t1
      have "read_loop E src xs (vars(v := Secs (t1 - t0))) w3 = (r, w')" by simp
      then have "extends Decode w3 w'" by (rule Cons.IH)
      with e3 show ?thesis by (rule extends_trans)
    qed
  qed
qed

lemma extends_remove_loop:
  "remove_loop E xs w = (r, w') \<Longrightarrow> extends Cleanup w w'"
proof (induction xs arbitrary: w)
  case Nil
  then show ?case by (simp add: extends_refl)
next
  case (Cons f xs)
  obtain r1 w1 where rm: "os_remove E f w = (r1, w1)" by (cases "os_remove E f w")
  then have e1: "extends Cleanup w w1" by (rule extends_remove)
  show ?case
  proof (cases r1)
    case (Inl e)
    with Cons.prems rm e1 show ?thesis by simp
  next
    case (Inr u)
    with Cons.prems rm have "remove_loop E xs w1 = (r, w')" by simp
    then have "extends Cleanup w1 w'" by (rule Cons.IH)
    with e1 show ?thesis by (rule extends_trans)
  qed
qed

lemma extends_prune: "extends Cleanup w (prune E head tail w)"
proof (induction E head tail w rule: prune.induct)
  case (1 E head tail w)
  show ?case
  proof (cases "head \<noteq> [] \<and> tail \<noteq> []")
    case False
    then show ?thesis by (subst prune.simps) (auto simp: extends_refl)
  next
    case True
    obtain r1 w1 where rm: "os_rmdir E head w = (r1, w1)" by (cases "os_rmdir E head w")
    then have e1: "extends Cleanup w w1" by (rule extends_rmdir)
    show ?thesis
    proof (cases r1)
      case (Inl e)
      with True rm e1 show ?thesis by (subst prune.simps) simp
    next
      case (Inr u)
      from True rm Inr "1.IH"
      have "extends Cleanup w1 (prune E (dirname head) (basename head) w1)" by auto
      with e1 have "extends Cleanup w (prune E (dirname head) (basename head) w1)"
        by (rule extends_trans)
      with True rm Inr show ?thesis by (subst prune.simps) simp
    qed
  qed
qed

lemma extends_removedirs: "os_removedirs E name w = (r, w') \<Longrightarrow> extends Cleanup w w'"
  unfolding os_removedirs_def
  by (auto split: prod.splits sum.splits
      intro: extends_rmdir extends_trans[OF extends_rmdir extends_prune])

lemma traced_extends: "extends k w w' \<Longrightarrow> traced k w w'"
  by (simp add: traced_def extends_def)

lemma traced_print_left: "traced k (print s w) w' = traced k w w'"
  by (simp add: traced_def print_def)

lemma traced_print_right: "traced k w (print s w') = traced k w w'"
  by (simp add: traced_def print_def)

lemma traced_generate:
  "generate_compressed_images E src xs inp w = (r, w') \<Longrightarrow> traced Encode w w'"
  unfolding generate_compressed_images_def
  by (auto split: prod.splits sum.splits dest!: extends_encode_loop traced_extends
      simp: traced_print_left traced_print_right)

lemma traced_file_size:
  "calculate_file_size E src xs w = (r, w') \<Longrightarrow> traced Inspect w w'"
  unfolding calculate_file_size_def
  by (auto split: prod.splits sum.splits dest!: extends_size_loop traced_extends
      simp: traced_print_left traced_print_right)

lemma traced_read_times:
  "calculate_read_times E src xs w = (r, w') \<Longrightarrow> traced Decode w w'"
  unfolding calculate_read_times_def
  by (auto split: prod.splits sum.splits dest!: extends_read_loop traced_extends
      simp: traced_print_left traced_print_right)

lemma traced_remove_directory:
  "traced Cleanup w (remove_directory E xs d w)"
proof -
  obtain r1 w1 where l: "remove_loop E xs (print (begin_line E ''remove_directory'') w) = (r1, w1)"
    by (cases "remove_loop E xs (print (begin_line E ''remove_directory'') w)")
  then have t1: "traced Cleanup w w1"
    using extends_remove_loop traced_extends traced_print_left by blast
  show ?thesis
  proof (cases r1)
    case (Inl e)
    with l t1 show ?thesis by (simp add: remove_directory_def traced_print_right)
  next
    case (Inr u)
    obtain r2 w2 where rd: "os_removedirs E d w1 = (r2, w2)" by (cases "os_removedirs E d w1")
    then have "extends Cleanup w1 w2" by (rule extends_removedirs)
    with t1 have "traced Cleanup w w2"
      unfolding traced_def extends_def by (metis append.assoc list_all_append)
    with l Inr rd show ?thesis
      by (cases r2) (simp_all add: remove_directory_def traced_print_right)
  qed
qed

lemma trace_print_results:
  "trace (print_results E s wr r ix cs w) = trace w @ [DataFrame [s, wr, r] ix cs]"
  by (simp add: print_results_def Let_def emit_def print_def split: sum.splits)

lemma encoded_append: "encoded (xs @ ys) = encoded xs @ encoded ys"
  by (simp add: encoded_def)

lemma lookup_unlink: "lookup (unlink p d) q = (if q = p then None else lookup d q)"
  by (induction d) (auto simp: lookup_def unlink_def)

lemma time_time_frame:
  "time_time E w = (t, w1) \<Longrightarrow> trace w1 = trace w \<and> stdout w1 = stdout w \<and> disk w1 = disk w"
  by (auto simp: time_time_def)

lemma gdal_Open_frame:
  "gdal_Open E p w = (r, w1) \<Longrightarrow>
     trace w1 = trace w @ [Open p] \<and> stdout w1 = stdout w \<and> disk w1 = disk w"
  by (auto simp: gdal_Open_def emit_def Let_def split: option.splits)

lemma gdal_Translate_frame:
  "gdal_Translate E d s c w = (r, w1) \<Longrightarrow>
     trace w1 = trace w @ [Translate d s c] \<and> stdout w1 = stdout w"
  by (auto simp: gdal_Translate_def emit_def Let_def split: sum.splits)

lemma gdal_Translate_raises:
  "\<forall>d. translate_result E d f s c = Inl err \<Longrightarrow>
     gdal_Translate E f s c w = (Inl err, emit (Translate f s c) w)"
  by (simp add: gdal_Translate_def Let_def)

lemma getsize_frame:
  "os_path_getsize E p w = (r, w1) \<Longrightarrow>
     trace w1 = trace w @ [Getsize p] \<and> stdout w1 = stdout w \<and> disk w1 = disk w"
  by (auto simp: os_path_getsize_def emit_def Let_def split: option.splits node.splits)

lemma read_tif_frame:
  "read_tif E p w = (r, w1) \<Longrightarrow>
     trace w1 = trace w @ [ReadTif p] \<and> stdout w1 = stdout w \<and> disk w1 = disk w"
  by (auto simp: read_tif_def emit_def Let_def split: option.splits)

lemma os_remove_frame:
  "os_remove E p w = (r, w1) \<Longrightarrow> trace w1 = trace w @ [Remove p] \<and> stdout w1 = stdout w"
  by (auto simp: os_remove_def emit_def Let_def split: option.splits node.splits)

lemma os_remove_ok:
  "os_remove E p w = (Inr u, w1) \<Longrightarrow>
     (\<exists>n. lookup (disk w) p = Some (File n)) \<and> os_fault E (Remove p) = None \<and>
     disk w1 = unlink p (disk w)"
  by (auto simp: os_remove_def emit_def Let_def split: option.splits node.splits)

text \<open>The encode loop stops at a variant whose encode raises.\<close>

lemma encode_loop_fails:
  assumes "f \<in> set xs" and "branch src f = Some v"
    and "\<forall>d. translate_result E d f inp (command v) = Inl err"
  shows "\<exists>e w' evs. encode_loop E src inp xs vars w = (Inl e, w') \<and> stdout w' = stdout w \<and>
           trace w' = trace w @ evs \<and>
           set (encoded evs) \<subseteq> set (takeWhile (\<lambda>x. x \<noteq> f) xs) \<union> {f}"
  using assms(1)
proof (induction xs arbitrary: vars w)
  case Nil
  then show ?case by simp
next
  case (Cons x xs)
  obtain t0 w1 where t0: "time_time E w = (t0, w1)" by (cases "time_time E w")
  note f1 = time_time_frame[OF t0]
  show ?case
  proof (cases "branch src x")
    case None
    with assms(2) have xf: "x \<noteq> f" by auto
    with Cons.prems have "f \<in> set xs" by simp
    from Cons.IH[OF this, of vars w1] obtain e w' evs where
      "encode_loop E src inp xs vars w1 = (Inl e, w')" "stdout w' = stdout w1"
      "trace w' = trace w1 @ evs"
      "set (encoded evs) \<subseteq> set (takeWhile (\<lambda>x. x \<noteq> f) xs) \<union> {f}"
      by blast
    with None t0 f1 xf show ?thesis by auto
  next
    case (Some u)
    obtain r2 w2 where o: "gdal_Open E inp w1 = (r2, w2)" by (cases "gdal_Open E inp w1")
    note f2 = gdal_Open_frame[OF o]
    show ?thesis
    proof (cases r2)
      case (Inl e)
      with t0 Some o f1 f2 show ?thesis by (auto simp: encoded_def)
    next
      case (Inr a)
      obtain r3 w3 where tr: "gdal_Translate E x inp (command u) w2 = (r3, w3)"
        by (cases "gdal_Translate E x inp (command u) w2")
      note f3 = gdal_Translate_frame[OF tr]
      show ?thesis
      proof (cases r3)
        case (Inl e)
        have "encode_loop E src inp (x # xs) vars w = (Inl e, w3)"
          using t0 Some o Inr tr Inl by simp
        moreover have "trace w3 = trace w @ [Open inp, Translate x inp (command u)]"
          using f1 f2 f3 by simp
        moreover have "stdout w3 = stdout w" using f1 f2 f3 by simp
        moreover have "set (encoded [Open inp, Translate x inp (command u)])
            \<subseteq> set (takeWhile (\<lambda>x. x \<noteq> f) (x # xs)) \<union> {f}"
          by (auto simp: encoded_def)
        ultimately show ?thesis by blast
      next
        case (Inr b)
        have xf: "x \<noteq> f"
        proof
          assume "x = f"
          with Some assms(2) have "u = v" by simp
          with \<open>x = f\<close> tr gdal_Translate_raises[OF assms(3), of w2] Inr show False by simp
        qed
        obtain t1 w4 where t1: "time_time E w3 = (t1, w4)" by (cases "time_time E w3")
        note f4 = time_time_frame[OF t1]
        from xf Cons.prems have "f \<in> set xs" by simp
        from Cons.IH[OF this, of "vars(u := Secs (t1 - t0))" w4] obtain e w' evs where
          l: "encode_loop E src inp xs (vars(u := Secs (t1 - t0))) w4 = (Inl e, w')"
          and s: "stdout w' = stdout w4" and tc: "trace w' = trace w4 @ evs"
          and en: "set (encoded evs) \<subseteq> set (takeWhile (\<lambda>x. x \<noteq> f) xs) \<union> {f}"
          by blast
        have "encode_loop E src inp (x # xs) vars w = (Inl e, w')"
          using t0 Some o \<open>r2 = Inr a\<close> tr Inr t1 l by simp
        moreover have "trace w' = trace w @ ([Open inp, Translate x inp (command u)] @ evs)"
          using f1 f2 f3 f4 tc by simp
        moreover have "stdout w' = stdout w" using f1 f2 f3 f4 s by simp
        moreover have "set (encoded ([Open inp, Translate x inp (command u)] @ evs))
            \<subseteq> set (takeWhile (\<lambda>x. x \<noteq> f) (x # xs)) \<union> {f}"
          using en xf by (auto simp: encoded_def)
        ultimately show ?thesis by blast
      qed
    qed
  qed
qed

section \<open>The rows of the stages\<close>

lemma artifact_in_Cons:
  "branch src f = Some u \<Longrightarrow> artifact src v \<in> set (f # xs) \<longleftrightarrow> v = u \<or> artifact src v \<in> set xs"
  by (auto simp: branch_iff dest: artifact_inj)

lemma artifact_in_Cons_None:
  "branch src f = None \<Longrightarrow> artifact src v \<in> set (f # xs) \<longleftrightarrow> artifact src v \<in> set xs"
  using branch_artifact[of src v] by auto

lemma encode_loop_vars:
  "encode_loop E src inp xs vars w = (Inr vars', w') \<Longrightarrow>
   (artifact src v \<notin> set xs \<longrightarrow> vars' v = vars v) \<and>
   (artifact src v \<in> set xs \<longrightarrow> is_secs (vars' v))"
proof (induction xs arbitrary: vars w)
  case Nil
  then show ?case by simp
next
  case (Cons f xs)
  obtain t0 w1 where t0: "time_time E w = (t0, w1)" by (cases "time_time E w")
  show ?case
  proof (cases "branch src f")
    case None
    with Cons.prems t0 have "encode_loop E src inp xs vars w1 = (Inr vars', w')" by simp
    from Cons.IH[OF this] artifact_in_Cons_None[OF None, of v xs] show ?thesis by blast
  next
    case (Some u)
    from Cons.prems t0 Some obtain w2 w3 t1 w4 where
      "encode_loop E src inp xs (vars(u := Secs (t1 - t0))) w4 = (Inr vars', w')"
      by (auto split: prod.splits sum.splits)
    from Cons.IH[OF this] artifact_in_Cons[OF Some, of v xs] show ?thesis
      by (cases "v = u") (auto simp: is_secs_def)
  qed
qed

lemma size_loop_vars:
  "size_loop E src xs vars w = (Inr vars', w') \<Longrightarrow>
   (artifact src v \<notin> set xs \<longrightarrow> vars' v = vars v) \<and>
   (artifact src v \<in> set xs \<longrightarrow> is_size E (vars' v))"
proof (induction xs arbitrary: vars w)
  case Nil
  then show ?case by simp
next
  case (Cons f xs)
  show ?case
  proof (cases "branch src f")
    case None
    with Cons.prems have "size_loop E src xs vars w = (Inr vars', w')" by simp
    from Cons.IH[OF this] artifact_in_Cons_None[OF None, of v xs] show ?thesis by blast
  next
    case (Some u)
    from Cons.prems Some obtain n w1 where
      "size_loop E src xs (vars(u := Str (size_si E n))) w1 = (Inr vars', w')"
      by (auto split: prod.splits sum.splits)
    from Cons.IH[OF this] artifact_in_Cons[OF Some, of v xs] show ?thesis
      by (cases "v = u") (auto simp: is_size_def)
  qed
qed

lemma read_loop_vars:
  "read_loop E src xs vars w = (Inr vars', w') \<Longrightarrow>
   (artifact src v \<notin> set xs \<longrightarrow> vars' v = vars v) \<and>
   (artifact src v \<in> set xs \<longrightarrow> is_secs (vars' v))"
proof (induction xs arbitrary: vars w)
  case Nil
  then show ?case by simp
next
  case (Cons f xs)
  show ?case
  proof (cases "branch src f")
    case None
    with Cons.prems have "read_loop E src xs vars w = (Inr vars', w')" by simp
    from Cons.IH[OF this] artifact_in_Cons_None[OF None, of v xs] show ?thesis by blast
  next
    case (Some u)
    from Cons.prems Some obtain t0 t1 w3 where
      "read_loop E src xs (vars(u := Secs (t1 - t0))) w3 = (Inr vars', w')"
      by (auto split: prod.splits sum.splits)
    from Cons.IH[OF this] artifact_in_Cons[OF Some, of v xs] show ?thesis
      by (cases "v = u") (auto simp: is_secs_def)
  qed
qed

section \<open>A failure inside a loop\<close>

lemma getsize_fails:
  "lookup (disk w) f = None \<or> os_fault E (Getsize f) \<noteq> None \<Longrightarrow>
     \<exists>e w1. os_path_getsize E f w = (Inl e, w1)"
  by (auto simp: os_path_getsize_def emit_def Let_def split: option.splits)

lemma getsize_file:
  "lookup (disk w) f = Some (File n) \<Longrightarrow> os_fault E (Getsize f) = None \<Longrightarrow>
     os_path_getsize E f w = (Inr n, emit (Getsize f) w)"
  by (simp add: os_path_getsize_def emit_def Let_def)

text \<open>The size loop stops at an artifact that is missing or that the system lets nobody inspect.\<close>

lemma size_loop_fails:
  assumes "f \<in> set xs" and "branch src f \<noteq> None"
    and "lookup (disk w) f = None \<or> os_fault E (Getsize f) \<noteq> None"
  shows "\<exists>e w'. size_loop E src xs vars w = (Inl e, w') \<and> stdout w' = stdout w"
  using assms(1,3)
proof (induction xs arbitrary: vars w)
  case Nil
  then show ?case by simp
next
  case (Cons x xs)
  show ?case
  proof (cases "branch src x")
    case None
    with assms(2) have "x \<noteq> f" by auto
    with Cons.prems(1) have "f \<in> set xs" by simp
    from Cons.IH[OF this Cons.prems(2), of vars] None show ?thesis by simp
  next
    case (Some u)
    obtain r1 w1 where g: "os_path_getsize E x w = (r1, w1)" by (cases "os_path_getsize E x w")
    note f1 = getsize_frame[OF g]
    show ?thesis
    proof (cases r1)
      case (Inl e)
      with Some g f1 show ?thesis by simp
    next
      case (Inr n)
      with g getsize_fails[OF Cons.prems(2), of ] have "x \<noteq> f" by auto
      with Cons.prems(1) have "f \<in> set xs" by simp
      moreover have "lookup (disk w1) f = None \<or> os_fault E (Getsize f) \<noteq> None"
        using Cons.prems(2) f1 by simp
      ultimately obtain e w' where
        "size_loop E src xs (vars(u := Str (size_si E n))) w1 = (Inl e, w')" "stdout w' = stdout w1"
        using Cons.IH by blast
      with Some g Inr f1 show ?thesis by simp
    qed
  qed
qed

text \<open>With every artifact it is given a readable regular file, the size loop formats each size.\<close>

lemma size_loop_ok:
  assumes "\<forall>f\<in>set xs. branch src f \<noteq> None \<longrightarrow>
             (\<exists>n. lookup (disk w) f = Some (File n)) \<and> os_fault E (Getsize f) = None"
  shows "\<exists>vars' w'. size_loop E src xs vars w = (Inr vars', w') \<and>
           (\<forall>v. (artifact src v \<in> set xs \<longrightarrow>
                    vars' v = Str (size_si E (file_size (disk w) (artifact src v)))) \<and>
                (artifact src v \<notin> set xs \<longrightarrow> vars' v = vars v))"
  using assms
proof (induction xs arbitrary: vars w)
  case Nil
  then show ?case by simp
next
  case (Cons x xs)
  show ?case
  proof (cases "branch src x")
    case None
    from Cons.prems have "\<forall>f\<in>set xs. branch src f \<noteq> None \<longrightarrow>
        (\<exists>n. lookup (disk w) f = Some (File n)) \<and> os_fault E (Getsize f) = None" by simp
    from Cons.IH[OF this, of vars] obtain vars' w' where
      l: "size_loop E src xs vars w = (Inr vars', w')"
      and v: "\<forall>v. (artifact src v \<in> set xs \<longrightarrow>
                    vars' v = Str (size_si E (file_size (disk w) (artifact src v)))) \<and>
                (artifact src v \<notin> set xs \<longrightarrow> vars' v = vars v)"
      by blast
    from l None have "size_loop E src (x # xs) vars w = (Inr vars', w')" by simp
    moreover from v artifact_in_Cons_None[OF None, of _ xs]
    have "\<forall>v. (artifact src v \<in> set (x # xs) \<longrightarrow>
                    vars' v = Str (size_si E (file_size (disk w) (artifact src v)))) \<and>
                (artifact src v \<notin> set (x # xs) \<longrightarrow> vars' v = vars v)"
      by blast
    ultimately show ?thesis by blast
  next
    case (Some u)
    with Cons.prems obtain n where n: "lookup (disk w) x = Some (File n)"
      and nf: "os_fault E (Getsize x) = None" by auto
    let ?w1 = "emit (Getsize x) w"
    have g: "os_path_getsize E x w = (Inr n, ?w1)" using n nf by (rule getsize_file)
    have d1: "disk ?w1 = disk w" by (simp add: emit_def)
    from Cons.prems have "\<forall>f\<in>set xs. branch src f \<noteq> None \<longrightarrow>
        (\<exists>n. lookup (disk ?w1) f = Some (File n)) \<and> os_fault E (Getsize f) = None"
      by (simp add: d1)
    from Cons.IH[OF this, of "vars(u := Str (size_si E n))"] obtain vars' w' where
      l: "size_loop E src xs (vars(u := Str (size_si E n))) ?w1 = (Inr vars', w')"
      and v: "\<forall>v. (artifact src v \<in> set xs \<longrightarrow>
                    vars' v = Str (size_si E (file_size (disk w) (artifact src v)))) \<and>
                (artifact src v \<notin> set xs \<longrightarrow> vars' v = (vars(u := Str (size_si E n))) v)"
      unfolding d1 by blast
    from l Some g have "size_loop E src (x # xs) vars w = (Inr vars', w')" by simp
    moreover have "x = artifact src u" using Some by (rule branch_Some)
    with n have "file_size (disk w) (artifact src u) = n" by (simp add: file_size_def)
    with v artifact_in_Cons[OF Some, of _ xs]
    have "\<forall>v. (artifact src v \<in> set (x # xs) \<longrightarrow>
                    vars' v = Str (size_si E (file_size (disk w) (artifact src v)))) \<and>
                (artifact src v \<notin> set (x # xs) \<longrightarrow> vars' v = vars v)"
      by (metis fun_upd_apply)
    ultimately show ?thesis by blast
  qed
qed

lemma read_tif_fails:
  "read_raises E (disk w) f \<noteq> None \<Longrightarrow> \<exists>e w1. read_tif E f w = (Inl e, w1)"
  by (auto simp: read_tif_def emit_def Let_def split: option.splits)

text \<open>The read loop stops at an artifact whose decoding raises.\<close>

lemma read_loop_fails:
  assumes "f \<in> set xs" and "branch src f \<noteq> None" and "read_raises E (disk w) f \<noteq> None"
  shows "\<exists>e w'. read_loop E src xs vars w = (Inl e, w') \<and> stdout w' = stdout w"
  using assms(1,3)
proof (induction xs arbitrary: vars w)
  case Nil
  then show ?case by simp
next
  case (Cons x xs)
  show ?case
  proof (cases "branch src x")
    case None
    with assms(2) have "x \<noteq> f" by auto
    with Cons.prems(1) have "f \<in> set xs" by simp
    from Cons.IH[OF this Cons.prems(2), of vars] None show ?thesis by simp
  next
    case (Some u)
    obtain t0 w1 where t0: "time_time E w = (t0, w1)" by (cases "time_time E w")
    note f1 = time_time_frame[OF t0]
    obtain r2 w2 where rd: "read_tif E x w1 = (r2, w2)" by (cases "read_tif E x w1")
    note f2 = read_tif_frame[OF rd]
    show ?thesis
    proof (cases r2)
      case (Inl e)
      with Some t0 rd f1 f2 show ?thesis by simp
    next
      case (Inr a)
      have "read_raises E (disk w1) f \<noteq> None" using Cons.prems(2) f1 by simp
      from read_tif_fails[OF this] rd Inr have "x \<noteq> f" by auto
      with Cons.prems(1) have fx: "f \<in> set xs" by simp
      obtain t1 w3 where t1: "time_time E w2 = (t1, w3)" by (cases "time_time E w2")
      note f3 = time_time_frame[OF t1]
      have "read_raises E (disk w3) f \<noteq> None" using Cons.prems(2) f1 f2 f3 by simp
      from Cons.IH[OF fx this, of "vars(u := Secs (t1 - t0))"] obtain e w' where
        "read_loop E src xs (vars(u := Secs (t1 - t0))) w3 = (Inl e, w')" "stdout w' = stdout w3"
        by blast
      with Some t0 rd Inr t1 f1 f2 f3 show ?thesis by simp
    qed
  qed
qed

text \<open>
  The remove loop stops at the first deletion that raises, and no later than at a path
  that is not a regular file or that the system lets nobody delete.
\<close>

lemma remove_loop_fails:
  assumes "f \<in> set xs"
    and "(\<forall>n. lookup (disk w) f \<noteq> Some (File n)) \<or> os_fault E (Remove f) \<noteq> None"
  shows "\<exists>e w' k. remove_loop E xs w = (Inl e, w') \<and> stdout w' = stdout w \<and>
           k \<le> length (takeWhile (\<lambda>x. x \<noteq> f) xs) \<and>
           trace w' = trace w @ map Remove (take (Suc k) xs)"
  using assms
proof (induction xs arbitrary: w)
  case Nil
  then show ?case by simp
next
  case (Cons x xs)
  obtain r1 w1 where rm: "os_remove E x w = (r1, w1)" by (cases "os_remove E x w")
  note f1 = os_remove_frame[OF rm]
  show ?case
  proof (cases r1)
    case (Inl e)
    with rm f1 have "remove_loop E (x # xs) w = (Inl e, w1) \<and> stdout w1 = stdout w \<and>
        0 \<le> length (takeWhile (\<lambda>x. x \<noteq> f) (x # xs)) \<and>
        trace w1 = trace w @ map Remove (take (Suc 0) (x # xs))"
      by simp
    then show ?thesis by blast
  next
    case (Inr u)
    note ok = os_remove_ok[OF rm[unfolded Inr]]
    with Cons.prems(2) have xf: "x \<noteq> f" by auto
    with Cons.prems(1) have fx: "f \<in> set xs" by simp
    have "(\<forall>n. lookup (disk w1) f \<noteq> Some (File n)) \<or> os_fault E (Remove f) \<noteq> None"
      using Cons.prems(2) ok xf by (simp add: lookup_unlink)
    from Cons.IH[OF fx this] obtain e w' k where
      l: "remove_loop E xs w1 = (Inl e, w')" and s: "stdout w' = stdout w1"
      and k: "k \<le> length (takeWhile (\<lambda>x. x \<noteq> f) xs)"
      and t: "trace w' = trace w1 @ map Remove (take (Suc k) xs)"
      by blast
    have "remove_loop E (x # xs) w = (Inl e, w') \<and> stdout w' = stdout w \<and>
        Suc k \<le> length (takeWhile (\<lambda>x. x \<noteq> f) (x # xs)) \<and>
        trace w' = trace w @ map Remove (take (Suc (Suc k)) (x # xs))"
      using rm Inr l s k t f1 xf by simp
    then show ?thesis by blast
  qed
qed

lemma stdout_print: "stdout (print s w) = stdout w @ [s]"
  by (simp add: print_def)

lemma trace_print: "trace (print s w) = trace w"
  by (simp add: print_def)

lemma disk_print: "disk (print s w) = disk w"
  by (simp add: print_def)

lemma generate_fails:
  assumes "f \<in> set xs" and "branch src f = Some v"
    and "\<forall>d. translate_result E d f inp (command v) = Inl err"
  shows "\<exists>e w' evs. generate_compressed_images E src xs inp w = (None, w') \<and>
           stdout w' = stdout w @ [begin_line E ''generate_compressed_images'',
                                   fail_line E ''generate_compressed_images'' e] \<and>
           trace w' = trace w @ evs \<and>
           set (encoded evs) \<subseteq> set (takeWhile (\<lambda>x. x \<noteq> f) xs) \<union> {f}"
proof -
  from encode_loop_fails[OF assms, of unset "print (begin_line E ''generate_compressed_images'') w"]
  obtain e w1 evs where
    "encode_loop E src inp xs unset (print (begin_line E ''generate_compressed_images'') w) = (Inl e, w1)"
    "stdout w1 = stdout (print (begin_line E ''generate_compressed_images'') w)"
    "trace w1 = trace (print (begin_line E ''generate_compressed_images'') w) @ evs"
    "set (encoded evs) \<subseteq> set (takeWhile (\<lambda>x. x \<noteq> f) xs) \<union> {f}"
    by blast
  then show ?thesis
    by (auto simp: generate_compressed_images_def stdout_print trace_print)
qed

lemma file_size_fails:
  assumes "f \<in> set xs" and "branch src f \<noteq> None"
    and "lookup (disk w) f = None \<or> os_fault E (Getsize f) \<noteq> None"
  shows "\<exists>e w'. calculate_file_size E src xs w = (None, w') \<and>
           stdout w' = stdout w @ [begin_line E ''calculate_file_size'',
                                   fail_line E ''calculate_file_size'' e]"
proof -
  have "lookup (disk (print (begin_line E ''calculate_file_size'') w)) f = None \<or>
      os_fault E (Getsize f) \<noteq> None"
    using assms(3) by (simp add: disk_print)
  from size_loop_fails[OF assms(1,2) this, of unset]
  obtain e w1 where
    "size_loop E src xs unset (print (begin_line E ''calculate_file_size'') w) = (Inl e, w1)"
    "stdout w1 = stdout (print (begin_line E ''calculate_file_size'') w)"
    by blast
  then show ?thesis
    by (auto simp: calculate_file_size_def stdout_print)
qed

lemma file_size_ok:
  assumes "\<forall>f\<in>set xs. branch src f \<noteq> None \<longrightarrow>
             (\<exists>n. lookup (disk w) f = Some (File n)) \<and> os_fault E (Getsize f) = None"
  shows "fst (calculate_file_size E src xs w) =
           Some (map (\<lambda>v. if artifact src v \<in> set xs
                           then Str (size_si E (file_size (disk w) (artifact src v)))
                           else Str []) catalog)"
proof -
  let ?w0 = "print (begin_line E ''calculate_file_size'') w"
  have "\<forall>f\<in>set xs. branch src f \<noteq> None \<longrightarrow>
      (\<exists>n. lookup (disk ?w0) f = Some (File n)) \<and> os_fault E (Getsize f) = None"
    using assms by (simp add: disk_print)
  from size_loop_ok[OF this, of unset] obtain vars' w' where
    l: "size_loop E src xs unset ?w0 = (Inr vars', w')"
    and v: "\<forall>v. (artifact src v \<in> set xs \<longrightarrow>
                    vars' v = Str (size_si E (file_size (disk w) (artifact src v)))) \<and>
                (artifact src v \<notin> set xs \<longrightarrow> vars' v = unset v)"
    unfolding disk_print by blast
  from v have "vars' = (\<lambda>v. if artifact src v \<in> set xs
                           then Str (size_si E (file_size (disk w) (artifact src v)))
                           else Str [])"
    by (auto simp: unset_def fun_eq_iff)
  with l show ?thesis by (simp add: calculate_file_size_def)
qed

lemma read_times_fails:
  assumes "f \<in> set xs" and "branch src f \<noteq> None" and "read_raises E (disk w) f \<noteq> None"
  shows "\<exists>e w'. calculate_read_times E src xs w = (None, w') \<and>
           stdout w' = stdout w @ [begin_line E ''calculate_read_times'',
                                   fail_line E ''calculate_read_times'' e]"
proof -
  have "read_raises E (disk (print (begin_line E ''calculate_read_times'') w)) f \<noteq> None"
    using assms(3) by (simp add: disk_print)
  from read_loop_fails[OF assms(1,2) this, of unset]
  obtain e w1 where
    "read_loop E src xs unset (print (begin_line E ''calculate_read_times'') w) = (Inl e, w1)"
    "stdout w1 = stdout (print (begin_line E ''calculate_read_times'') w)"
    by blast
  then show ?thesis
    by (auto simp: calculate_read_times_def stdout_print)
qed

lemma remove_directory_fails:
  assumes "f \<in> set xs"
    and "(\<forall>n. lookup (disk w) f \<noteq> Some (File n)) \<or> os_fault E (Remove f) \<noteq> None"
  shows "\<exists>e k. k \<le> length (takeWhile (\<lambda>x. x \<noteq> f) xs) \<and>
           trace (remove_directory E xs d w) = trace w @ map Remove (take (Suc k) xs) \<and>
           stdout (remove_directory E xs d w) =
             stdout w @ [begin_line E ''remove_directory'', fail_line E ''remove_directory'' e]"
proof -
  let ?w0 = "print (begin_line E ''remove_directory'') w"
  have "(\<forall>n. lookup (disk ?w0) f \<noteq> Some (File n)) \<or> os_fault E (Remove f) \<noteq> None"
    using assms(2) by (simp add: disk_print)
  from remove_loop_fails[OF assms(1) this] obtain e w' k where
    "remove_loop E xs ?w0 = (Inl e, w')" "stdout w' = stdout ?w0"
    "k \<le> length (takeWhile (\<lambda>x. x \<noteq> f) xs)"
    "trace w' = trace ?w0 @ map Remove (take (Suc k) xs)"
    by blast
  then have "k \<le> length (takeWhile (\<lambda>x. x \<noteq> f) xs) \<and>
           trace (remove_directory E xs d w) = trace w @ map Remove (take (Suc k) xs) \<and>
           stdout (remove_directory E xs d w) =
             stdout w @ [begin_line E ''remove_directory'', fail_line E ''remove_directory'' e]"
    by (simp add: remove_directory_def stdout_print trace_print)
  then show ?thesis by blast
qed

section \<open>The cells of a row\<close>

lemma ticks_print: "ticks (print s w) = ticks w"
  by (simp add: print_def)

lemma time_time_ticks:
  "time_time E w = (t, w1) \<Longrightarrow> t = clock E (ticks w) \<and> ticks w1 = Suc (ticks w)"
  by (auto simp: time_time_def)

lemma gdal_Open_ticks: "gdal_Open E p w = (r, w1) \<Longrightarrow> ticks w1 = ticks w"
  by (auto simp: gdal_Open_def emit_def Let_def split: option.splits)

lemma gdal_Translate_ticks: "gdal_Translate E d s c w = (r, w1) \<Longrightarrow> ticks w1 = ticks w"
  by (auto simp: gdal_Translate_def emit_def Let_def split: sum.splits)

lemma read_tif_ticks: "read_tif E p w = (r, w1) \<Longrightarrow> ticks w1 = ticks w"
  by (auto simp: read_tif_def emit_def Let_def split: option.splits)

lemma getsize_value:
  "os_path_getsize E p w = (Inr n, w1) \<Longrightarrow> n = st_size E (disk w) p \<and> disk w1 = disk w"
  by (auto simp: os_path_getsize_def emit_def Let_def st_size_def
      split: option.splits node.splits)

lemma members_Cons:
  "members src (x # xs) = (if branch src x = None then members src xs else Suc (members src xs))"
  by (simp add: members_def)

text \<open>The cell of a variant is the duration of its own encode: the last one, if its path comes twice.\<close>

lemma encode_loop_cell:
  assumes "encode_loop E src inp (pre @ artifact src v # post) vars w = (Inr vars', w')"
    and "artifact src v \<notin> set post"
  shows "vars' v = Secs (clock E (Suc (ticks w + length pre + members src pre))
                         - clock E (ticks w + length pre + members src pre))"
  using assms(1)
proof (induction pre arbitrary: vars w)
  case Nil
  obtain t0 w1 where t0: "time_time E w = (t0, w1)" by (cases "time_time E w")
  note k0 = time_time_ticks[OF t0]
  have b: "branch src (artifact src v) = Some v" by (rule branch_artifact)
  from Nil t0 b obtain u w2 u' w3 t1 w4 where
    o: "gdal_Open E inp w1 = (Inr u, w2)"
    and tr: "gdal_Translate E (artifact src v) inp (command v) w2 = (Inr u', w3)"
    and t1: "time_time E w3 = (t1, w4)"
    and l: "encode_loop E src inp post (vars(v := Secs (t1 - t0))) w4 = (Inr vars', w')"
    by (auto split: prod.splits sum.splits)
  have "ticks w3 = Suc (ticks w)"
    using k0 gdal_Open_ticks[OF o] gdal_Translate_ticks[OF tr] by simp
  with time_time_ticks[OF t1] have "t1 = clock E (Suc (ticks w))" by simp
  moreover from encode_loop_vars[OF l, of v] assms(2)
  have "vars' v = Secs (t1 - t0)" by simp
  ultimately show ?case using k0 by (simp add: members_def)
next
  case (Cons x pre)
  obtain t0 w1 where t0: "time_time E w = (t0, w1)" by (cases "time_time E w")
  note k0 = time_time_ticks[OF t0]
  show ?case
  proof (cases "branch src x")
    case None
    with Cons.prems t0
    have "encode_loop E src inp (pre @ artifact src v # post) vars w1 = (Inr vars', w')"
      by simp
    from Cons.IH[OF this] k0 None show ?thesis by (simp add: members_Cons)
  next
    case (Some u)
    from Cons.prems t0 Some obtain a w2 a' w3 t1 w4 where
      o: "gdal_Open E inp w1 = (Inr a, w2)"
      and tr: "gdal_Translate E x inp (command u) w2 = (Inr a', w3)"
      and t1: "time_time E w3 = (t1, w4)"
      and l: "encode_loop E src inp (pre @ artifact src v # post)
                (vars(u := Secs (t1 - t0))) w4 = (Inr vars', w')"
      by (auto split: prod.splits sum.splits)
    have "ticks w4 = Suc (Suc (ticks w))"
      using k0 gdal_Open_ticks[OF o] gdal_Translate_ticks[OF tr] time_time_ticks[OF t1]
      by simp
    with Cons.IH[OF l] Some show ?thesis by (simp add: members_Cons)
  qed
qed

lemma read_loop_cell:
  assumes "read_loop E src (pre @ artifact src v # post) vars w = (Inr vars', w')"
    and "artifact src v \<notin> set post"
  shows "vars' v = Secs (clock E (Suc (ticks w + 2 * members src pre))
                         - clock E (ticks w + 2 * members src pre))"
  using assms(1)
proof (induction pre arbitrary: vars w)
  case Nil
  have b: "branch src (artifact src v) = Some v" by (rule branch_artifact)
  obtain t0 w1 where t0: "time_time E w = (t0, w1)" by (cases "time_time E w")
  note k0 = time_time_ticks[OF t0]
  from Nil t0 b obtain u w2 t1 w3 where
    rd: "read_tif E (artifact src v) w1 = (Inr u, w2)"
    and t1: "time_time E w2 = (t1, w3)"
    and l: "read_loop E src post (vars(v := Secs (t1 - t0))) w3 = (Inr vars', w')"
    by (auto split: prod.splits sum.splits)
  have "ticks w2 = Suc (ticks w)" using k0 read_tif_ticks[OF rd] by simp
  with time_time_ticks[OF t1] have "t1 = clock E (Suc (ticks w))" by simp
  moreover from read_loop_vars[OF l, of v] assms(2)
  have "vars' v = Secs (t1 - t0)" by simp
  ultimately show ?case using k0 by (simp add: members_def)
next
  case (Cons x pre)
  show ?case
  proof (cases "branch src x")
    case None
    with Cons.prems
    have "read_loop E src (pre @ artifact src v # post) vars w = (Inr vars', w')" by simp
    from Cons.IH[OF this] None show ?thesis by (simp add: members_Cons)
  next
    case (Some u)
    obtain t0 w1 where t0: "time_time E w = (t0, w1)" by (cases "time_time E w")
    note k0 = time_time_ticks[OF t0]
    from Cons.prems t0 Some obtain a w2 t1 w3 where
      rd: "read_tif E x w1 = (Inr a, w2)"
      and t1: "time_time E w2 = (t1, w3)"
      and l: "read_loop E src (pre @ artifact src v # post)
                (vars(u := Secs (t1 - t0))) w3 = (Inr vars', w')"
      by (auto split: prod.splits sum.splits)
    have "ticks w3 = Suc (Suc (ticks w))"
      using k0 read_tif_ticks[OF rd] time_time_ticks[OF t1] by simp
    with Cons.IH[OF l] Some show ?thesis by (simp add: members_Cons)
  qed
qed

lemma size_loop_cell:
  assumes "size_loop E src xs vars w = (Inr vars', w')" and "artifact src v \<in> set xs"
  shows "vars' v = Str (size_si E (st_size E (disk w) (artifact src v)))"
  using assms
proof (induction xs arbitrary: vars w)
  case Nil
  then show ?case by simp
next
  case (Cons x xs)
  show ?case
  proof (cases "branch src x")
    case None
    with Cons.prems(1) have l: "size_loop E src xs vars w = (Inr vars', w')" by simp
    from None Cons.prems(2) branch_artifact[of src v] have "artifact src v \<in> set xs" by auto
    from Cons.IH[OF l this] show ?thesis .
  next
    case (Some u)
    from Cons.prems(1) Some obtain n w1 where
      g: "os_path_getsize E x w = (Inr n, w1)"
      and l: "size_loop E src xs (vars(u := Str (size_si E n))) w1 = (Inr vars', w')"
      by (auto split: prod.splits sum.splits)
    note gv = getsize_value[OF g]
    show ?thesis
    proof (cases "artifact src v \<in> set xs")
      case True
      from Cons.IH[OF l True] gv show ?thesis by simp
    next
      case False
      with Cons.prems(2) have xv: "x = artifact src v" by simp
      with Some have "u = v" by (simp add: branch_artifact)
      moreover from size_loop_vars[OF l, of v] False
      have "vars' v = (vars(u := Str (size_si E n))) v" by simp
      ultimately show ?thesis using gv xv by simp
    qed
  qed
qed

lemma gdal_Open_returns:
  "\<forall>d. open_raises E d p = None \<Longrightarrow> gdal_Open E p w = (Inr (), emit (Open p) w)"
  by (simp add: gdal_Open_def Let_def)

lemma gdal_Translate_returns:
  "\<forall>d. \<exists>d'. translate_result E d f s c = Inr d' \<Longrightarrow>
     \<exists>w1. gdal_Translate E f s c w = (Inr (), w1)"
proof -
  assume a: "\<forall>d. \<exists>d'. translate_result E d f s c = Inr d'"
  then obtain d' where "translate_result E (disk (emit (Translate f s c) w)) f s c = Inr d'"
    by blast
  then show ?thesis by (simp add: gdal_Translate_def Let_def)
qed

text \<open>With an engine that does not raise on what it is given, the encode loop returns.\<close>

lemma encode_loop_returns:
  assumes "\<forall>d. open_raises E d inp = None"
    and "\<forall>f\<in>set xs. \<forall>v. branch src f = Some v \<longrightarrow>
           (\<forall>d. \<exists>d'. translate_result E d f inp (command v) = Inr d')"
  shows "\<exists>vars' w'. encode_loop E src inp xs vars w = (Inr vars', w')"
  using assms(2)
proof (induction xs arbitrary: vars w)
  case Nil
  then show ?case by simp
next
  case (Cons x xs)
  obtain t0 w1 where t0: "time_time E w = (t0, w1)" by (cases "time_time E w")
  from Cons.prems have rest: "\<forall>f\<in>set xs. \<forall>v. branch src f = Some v \<longrightarrow>
      (\<forall>d. \<exists>d'. translate_result E d f inp (command v) = Inr d')" by simp
  show ?case
  proof (cases "branch src x")
    case None
    with t0 Cons.IH[OF rest, of vars w1] show ?thesis by simp
  next
    case (Some u)
    let ?w2 = "emit (Open inp) w1"
    have o: "gdal_Open E inp w1 = (Inr (), ?w2)" using assms(1) by (rule gdal_Open_returns)
    from Cons.prems Some have "\<forall>d. \<exists>d'. translate_result E d x inp (command u) = Inr d'"
      by simp
    from gdal_Translate_returns[OF this, of ?w2] obtain w3 where
      tr: "gdal_Translate E x inp (command u) ?w2 = (Inr (), w3)" by blast
    obtain t1 w4 where t1: "time_time E w3 = (t1, w4)" by (cases "time_time E w3")
    from Cons.IH[OF rest, of "vars(u := Secs (t1 - t0))" w4] obtain vars' w' where
      "encode_loop E src inp xs (vars(u := Secs (t1 - t0))) w4 = (Inr vars', w')" by blast
    with t0 Some o tr t1 show ?thesis by simp
  qed
qed

text \<open>With every artifact it is given there to inspect, the size loop returns.\<close>

lemma size_loop_returns:
  assumes "\<forall>f\<in>set xs. branch src f \<noteq> None \<longrightarrow>
             lookup (disk w) f \<noteq> None \<and> os_fault E (Getsize f) = None"
  shows "\<exists>vars' w'. size_loop E src xs vars w = (Inr vars', w')"
  using assms
proof (induction xs arbitrary: vars w)
  case Nil
  then show ?case by simp
next
  case (Cons x xs)
  from Cons.prems have rest: "\<forall>f\<in>set xs. branch src f \<noteq> None \<longrightarrow>
      lookup (disk w) f \<noteq> None \<and> os_fault E (Getsize f) = None" by simp
  show ?case
  proof (cases "branch src x")
    case None
    with Cons.IH[OF rest, of vars] show ?thesis by simp
  next
    case (Some u)
    with Cons.prems have "lookup (disk w) x \<noteq> None" "os_fault E (Getsize x) = None" by auto
    then have "os_path_getsize E x w = (Inr (st_size E (disk w) x), emit (Getsize x) w)"
      by (auto simp: os_path_getsize_def emit_def Let_def st_size_def split: node.splits)
    then obtain n where g: "os_path_getsize E x w = (Inr n, emit (Getsize x) w)" by blast
    have "disk (emit (Getsize x) w) = disk w" by (simp add: emit_def)
    with rest have "\<forall>f\<in>set xs. branch src f \<noteq> None \<longrightarrow>
        lookup (disk (emit (Getsize x) w)) f \<noteq> None \<and> os_fault E (Getsize f) = None"
      by simp
    from Cons.IH[OF this, of "vars(u := Str (size_si E n))"] obtain vars' w' where
      "size_loop E src xs (vars(u := Str (size_si E n))) (emit (Getsize x) w) = (Inr vars', w')"
      by blast
    with Some g show ?thesis by simp
  qed
qed

text \<open>With every artifact it is given decoding without an exception, the read loop returns.\<close>

lemma read_loop_returns:
  assumes "\<forall>f\<in>set xs. branch src f \<noteq> None \<longrightarrow> read_raises E (disk w) f = None"
  shows "\<exists>vars' w'. read_loop E src xs vars w = (Inr vars', w')"
  using assms
proof (induction xs arbitrary: vars w)
  case Nil
  then show ?case by simp
next
  case (Cons x xs)
  from Cons.prems have rest: "\<forall>f\<in>set xs. branch src f \<noteq> None \<longrightarrow>
      read_raises E (disk w) f = None" by simp
  show ?case
  proof (cases "branch src x")
    case None
    with Cons.IH[OF rest, of vars] show ?thesis by simp
  next
    case (Some u)
    obtain t0 w1 where t0: "time_time E w = (t0, w1)" by (cases "time_time E w")
    note f1 = time_time_frame[OF t0]
    from Cons.prems Some f1 have "read_raises E (disk w1) x = None" by simp
    then have rd: "read_tif E x w1 = (Inr (), emit (ReadTif x) w1)"
      by (simp add: read_tif_def Let_def emit_def)
    obtain t1 w3 where t1: "time_time E (emit (ReadTif x) w1) = (t1, w3)"
      by (cases "time_time E (emit (ReadTif x) w1)")
    have "disk w3 = disk w" using time_time_frame[OF t1] f1 by (simp add: emit_def)
    with rest have "\<forall>f\<in>set xs. branch src f \<noteq> None \<longrightarrow> read_raises E (disk w3) f = None"
      by simp
    from Cons.IH[OF this, of "vars(u := Secs (t1 - t0))"] obtain vars' w' where
      "read_loop E src xs (vars(u := Secs (t1 - t0))) w3 = (Inr vars', w')" by blast
    with Some t0 rd t1 show ?thesis by simp
  qed
qed

lemma files_nth: "i < 6 \<Longrightarrow> files src ! i = artifact src (catalog ! i)"
  by (simp add: files_artifact length_catalog)

lemma members_all: "\<forall>x\<in>set xs. branch src x \<noteq> None \<Longrightarrow> members src xs = length xs"
  by (simp add: members_def)

lemma members_take_files: "i < 6 \<Longrightarrow> members src (take i (files src)) = i"
proof -
  assume i: "i < 6"
  have "\<forall>x\<in>set (take i (files src)). branch src x \<noteq> None"
    using set_take_subset[of i "files src"]
    by (auto simp: files_artifact branch_artifact)
  from members_all[OF this] i show ?thesis by (simp add: length_files)
qed

lemma files_split:
  assumes "i < 6"
  shows "files src = take i (files src) @ files src ! i # drop (Suc i) (files src) \<and>
         files src ! i \<notin> set (drop (Suc i) (files src))"
proof -
  have l: "i < length (files src)" using assms by (simp add: length_files)
  then have e: "files src = take i (files src) @ files src ! i # drop (Suc i) (files src)"
    by (simp add: id_take_nth_drop)
  have "distinct (take i (files src) @ files src ! i # drop (Suc i) (files src))"
    using distinct_files[of src] e by simp
  then have "files src ! i \<notin> set (drop (Suc i) (files src))" by simp
  with e show ?thesis by blast
qed

lemma generate_None_iff:
  "fst (generate_compressed_images E src xs inp w) = None \<longleftrightarrow>
     (\<exists>e w1. encode_loop E src inp xs unset
               (print (begin_line E ''generate_compressed_images'') w) = (Inl e, w1))"
  by (auto simp: generate_compressed_images_def split: prod.splits sum.splits)

lemma file_size_None_iff:
  "fst (calculate_file_size E src xs w) = None \<longleftrightarrow>
     (\<exists>e w1. size_loop E src xs unset
               (print (begin_line E ''calculate_file_size'') w) = (Inl e, w1))"
  by (auto simp: calculate_file_size_def split: prod.splits sum.splits)

lemma read_times_None_iff:
  "fst (calculate_read_times E src xs w) = None \<longleftrightarrow>
     (\<exists>e w1. read_loop E src xs unset
               (print (begin_line E ''calculate_read_times'') w) = (Inl e, w1))"
  by (auto simp: calculate_read_times_def split: prod.splits sum.splits)

lemma generate_returns:
  assumes "\<forall>d. open_raises E d inp = None"
    and "\<forall>f\<in>set xs. \<forall>v. branch src f = Some v \<longrightarrow>
           (\<forall>d. \<exists>d'. translate_result E d f inp (command v) = Inr d')"
  shows "fst (generate_compressed_images E src xs inp w) \<noteq> None"
  using encode_loop_returns[OF assms, of unset
      "print (begin_line E ''generate_compressed_images'') w"]
  by (auto simp: generate_None_iff)

lemma file_size_returns:
  assumes "\<forall>f\<in>set xs. branch src f \<noteq> None \<longrightarrow>
             lookup (disk w) f \<noteq> None \<and> os_fault E (Getsize f) = None"
  shows "fst (calculate_file_size E src xs w) \<noteq> None"
proof -
  have "\<forall>f\<in>set xs. branch src f \<noteq> None \<longrightarrow>
      lookup (disk (print (begin_line E ''calculate_file_size'') w)) f \<noteq> None \<and>
      os_fault E (Getsize f) = None"
    using assms by (simp add: disk_print)
  from size_loop_returns[OF this, of unset] show ?thesis
    by (auto simp: file_size_None_iff)
qed

lemma read_times_returns:
  assumes "\<forall>f\<in>set xs. branch src f \<noteq> None \<longrightarrow> read_raises E (disk w) f = None"
  shows "fst (calculate_read_times E src xs w) \<noteq> None"
proof -
  have "\<forall>f\<in>set xs. branch src f \<noteq> None \<longrightarrow>
      read_raises E (disk (print (begin_line E ''calculate_read_times'') w)) f = None"
    using assms by (simp add: disk_print)
  from read_loop_returns[OF this, of unset] show ?thesis
    by (auto simp: read_times_None_iff)
qed

lemma generate_cells:
  assumes "fst (generate_compressed_images E src xs inp w) = Some r"
  shows "length r = 6 \<and>
         (\<forall>i<6. (files src ! i \<notin> set xs \<longrightarrow> r ! i = Str []) \<and>
                (\<forall>pre post. xs = pre @ files src ! i # post \<and> files src ! i \<notin> set post \<longrightarrow>
                   r ! i = Secs (clock E (Suc (ticks w + length pre + members src pre))
                                 - clock E (ticks w + length pre + members src pre))))"
proof -
  let ?w0 = "print (begin_line E ''generate_compressed_images'') w"
  from assms obtain vars' w1 where
    l: "encode_loop E src inp xs unset ?w0 = (Inr vars', w1)" and r: "r = map vars' catalog"
    by (auto simp: generate_compressed_images_def split: prod.splits sum.splits)
  have len: "length r = 6" using r by (simp add: length_catalog)
  have cells: "(files src ! i \<notin> set xs \<longrightarrow> r ! i = Str []) \<and>
      (\<forall>pre post. xs = pre @ files src ! i # post \<and> files src ! i \<notin> set post \<longrightarrow>
         r ! i = Secs (clock E (Suc (ticks w + length pre + members src pre))
                       - clock E (ticks w + length pre + members src pre)))"
    if i: "i < 6" for i
  proof -
    let ?v = "catalog ! i"
    have f: "files src ! i = artifact src ?v" using i by (rule files_nth)
    have ri: "r ! i = vars' ?v" using r i by (simp add: length_catalog)
    have a: "files src ! i \<notin> set xs \<longrightarrow> r ! i = Str []"
      using encode_loop_vars[OF l, of ?v] f ri by (simp add: unset_def)
    have b: "r ! i = Secs (clock E (Suc (ticks w + length pre + members src pre))
                       - clock E (ticks w + length pre + members src pre))"
      if "xs = pre @ files src ! i # post" and "files src ! i \<notin> set post" for pre post
      using encode_loop_cell[of E src inp pre ?v post unset ?w0 vars' w1] l that f ri
      by (simp add: ticks_print)
    from a b show ?thesis by blast
  qed
  from len cells show ?thesis by blast
qed

lemma file_size_cells:
  assumes "fst (calculate_file_size E src xs w) = Some r"
  shows "length r = 6 \<and>
         (\<forall>i<6. (files src ! i \<notin> set xs \<longrightarrow> r ! i = Str []) \<and>
                (files src ! i \<in> set xs \<longrightarrow>
                   r ! i = Str (size_si E (st_size E (disk w) (files src ! i)))))"
proof -
  let ?w0 = "print (begin_line E ''calculate_file_size'') w"
  from assms obtain vars' w1 where
    l: "size_loop E src xs unset ?w0 = (Inr vars', w1)" and r: "r = map vars' catalog"
    by (auto simp: calculate_file_size_def split: prod.splits sum.splits)
  have len: "length r = 6" using r by (simp add: length_catalog)
  have cells: "(files src ! i \<notin> set xs \<longrightarrow> r ! i = Str []) \<and>
      (files src ! i \<in> set xs \<longrightarrow>
         r ! i = Str (size_si E (st_size E (disk w) (files src ! i))))"
    if i: "i < 6" for i
  proof -
    let ?v = "catalog ! i"
    have f: "files src ! i = artifact src ?v" using i by (rule files_nth)
    have ri: "r ! i = vars' ?v" using r i by (simp add: length_catalog)
    have a: "files src ! i \<notin> set xs \<longrightarrow> r ! i = Str []"
      using size_loop_vars[OF l, of ?v] f ri by (simp add: unset_def)
    have b: "files src ! i \<in> set xs \<longrightarrow>
        r ! i = Str (size_si E (st_size E (disk w) (files src ! i)))"
      using size_loop_cell[OF l, of ?v] f ri by (simp add: disk_print)
    from a b show ?thesis by blast
  qed
  from len cells show ?thesis by blast
qed

lemma read_times_cells:
  assumes "fst (calculate_read_times E src xs w) = Some r"
  shows "length r = 6 \<and>
         (\<forall>i<6. (files src ! i \<notin> set xs \<longrightarrow> r ! i = Str []) \<and>
                (\<forall>pre post. xs = pre @ files src ! i # post \<and> files src ! i \<notin> set post \<longrightarrow>
                   r ! i = Secs (clock E (Suc (ticks w + 2 * members src pre))
                                 - clock E (ticks w + 2 * members src pre))))"
proof -
  let ?w0 = "print (begin_line E ''calculate_read_times'') w"
  from assms obtain vars' w1 where
    l: "read_loop E src xs unset ?w0 = (Inr vars', w1)" and r: "r = map vars' catalog"
    by (auto simp: calculate_read_times_def split: prod.splits sum.splits)
  have len: "length r = 6" using r by (simp add: length_catalog)
  have cells: "(files src ! i \<notin> set xs \<longrightarrow> r ! i = Str []) \<and>
      (\<forall>pre post. xs = pre @ files src ! i # post \<and> files src ! i \<notin> set post \<longrightarrow>
         r ! i = Secs (clock E (Suc (ticks w + 2 * members src pre))
                       - clock E (ticks w + 2 * members src pre)))"
    if i: "i < 6" for i
  proof -
    let ?v = "catalog ! i"
    have f: "files src ! i = artifact src ?v" using i by (rule files_nth)
    have ri: "r ! i = vars' ?v" using r i by (simp add: length_catalog)
    have a: "files src ! i \<notin> set xs \<longrightarrow> r ! i = Str []"
      using read_loop_vars[OF l, of ?v] f ri by (simp add: unset_def)
    have b: "r ! i = Secs (clock E (Suc (ticks w + 2 * members src pre))
                       - clock E (ticks w + 2 * members src pre))"
      if "xs = pre @ files src ! i # post" and "files src ! i \<notin> set post" for pre post
      using read_loop_cell[of E src pre ?v post unset ?w0 vars' w1] l that f ri
      by (simp add: ticks_print)
    from a b show ?thesis by blast
  qed
  from len cells show ?thesis by blast
qed

text \<open>With the six catalog paths in catalog order, as \<^verbatim>\<open>main\<close> gives them.\<close>

lemma generate_cells_main:
  assumes "fst (generate_compressed_images E src (files src) inp w) = Some r"
  shows "r = map (\<lambda>i. Secs (clock E (Suc (ticks w + 2 * i)) - clock E (ticks w + 2 * i))) [0..<6]"
proof (rule nth_equalityI)
  show "length r = length (map (\<lambda>i. Secs (clock E (Suc (ticks w + 2 * i))
      - clock E (ticks w + 2 * i))) [0..<6])"
    using generate_cells[OF assms] by simp
next
  fix i assume "i < length r"
  then have i: "i < 6" using generate_cells[OF assms] by simp
  from generate_cells[OF assms] i files_split[OF i, of src]
  have "r ! i = Secs (clock E (Suc (ticks w + length (take i (files src))
        + members src (take i (files src))))
      - clock E (ticks w + length (take i (files src)) + members src (take i (files src))))"
    by blast
  moreover have "length (take i (files src)) = i" using i by (simp add: length_files)
  ultimately show "r ! i = map (\<lambda>i. Secs (clock E (Suc (ticks w + 2 * i))
      - clock E (ticks w + 2 * i))) [0..<6] ! i"
    using i members_take_files[OF i, of src] by (simp del: upt_Suc add: add.assoc mult_2)
qed

lemma read_times_cells_main:
  assumes "fst (calculate_read_times E src (files src) w) = Some r"
  shows "r = map (\<lambda>i. Secs (clock E (Suc (ticks w + 2 * i)) - clock E (ticks w + 2 * i))) [0..<6]"
proof (rule nth_equalityI)
  show "length r = length (map (\<lambda>i. Secs (clock E (Suc (ticks w + 2 * i))
      - clock E (ticks w + 2 * i))) [0..<6])"
    using read_times_cells[OF assms] by simp
next
  fix i assume "i < length r"
  then have i: "i < 6" using read_times_cells[OF assms] by simp
  from read_times_cells[OF assms] i files_split[OF i, of src]
  have "r ! i = Secs (clock E (Suc (ticks w + 2 * members src (take i (files src))))
      - clock E (ticks w + 2 * members src (take i (files src))))"
    by blast
  then show "r ! i = map (\<lambda>i. Secs (clock E (Suc (ticks w + 2 * i))
      - clock E (ticks w + 2 * i))) [0..<6] ! i"
    using i members_take_files[OF i, of src] by (simp del: upt_Suc)
qed

lemma file_size_cells_main:
  assumes "fst (calculate_file_size E src (files src) w) = Some r"
  shows "r = map (\<lambda>f. Str (size_si E (st_size E (disk w) f))) (files src)"
proof (rule nth_equalityI)
  show "length r = length (map (\<lambda>f. Str (size_si E (st_size E (disk w) f))) (files src))"
    using file_size_cells[OF assms] by (simp add: length_files)
next
  fix i assume "i < length r"
  then have i: "i < 6" using file_size_cells[OF assms] by simp
  then have "files src ! i \<in> set (files src)" by (simp add: length_files)
  with file_size_cells[OF assms] i
  show "r ! i = map (\<lambda>f. Str (size_si E (st_size E (disk w) f))) (files src) ! i"
    by (simp add: length_files)
qed

section \<open>The run of \<^verbatim>\<open>main\<close>\<close>

lemma main_unfold:
  obtains start w0 wr w1 s w2 r w3 where
    "time_time E w = (start, w0)"
    "generate_compressed_images E src (files src) src (print (begin_line E ''main'') w0) = (wr, w1)"
    "calculate_file_size E src (files src) w1 = (s, w2)"
    "calculate_read_times E src (files src) w2 = (r, w3)"
    "trace (main E src w) =
       trace (remove_directory E (files src) (tmp_dir src) w3) @ [DataFrame [s, wr, r] rows columns]"
proof -
  obtain start w0 where t0: "time_time E w = (start, w0)" by (cases "time_time E w")
  let ?wb = "print (begin_line E ''main'') w0"
  obtain wr w1 where g: "generate_compressed_images E src (files src) src ?wb = (wr, w1)"
    by (cases "generate_compressed_images E src (files src) src ?wb")
  obtain s w2 where c: "calculate_file_size E src (files src) w1 = (s, w2)"
    by (cases "calculate_file_size E src (files src) w1")
  obtain r w3 where d: "calculate_read_times E src (files src) w2 = (r, w3)"
    by (cases "calculate_read_times E src (files src) w2")
  let ?w4 = "remove_directory E (files src) (tmp_dir src) w3"
  let ?w5 = "print_results E s wr r rows columns ?w4"
  obtain end' w6 where t1: "time_time E (print (success_line E ''main'') ?w5) = (end', w6)"
    by (cases "time_time E (print (success_line E ''main'') ?w5)")
  have m: "main E src w = print (''Run Time = '' @ str_float E (end' - start) @ '' seconds'') w6"
    by (simp add: main_def t0 g c d t1)
  have "trace (main E src w) = trace ?w5"
    using t1 by (auto simp: m time_time_def print_def)
  then have "trace (main E src w) = trace ?w4 @ [DataFrame [s, wr, r] rows columns]"
    by (simp add: trace_print_results)
  with t0 g c d show ?thesis by (rule that)
qed

lemma files_Cons: "files src = uncompressed src # tl (files src)"
  by (simp add: files_def)

lemma branch_uncompressed: "branch src (uncompressed src) \<noteq> None"
  by (simp add: branch_def)

lemma uncompressed_in_files: "uncompressed src \<in> set (files src)"
  by (simp add: files_def)

lemma file_size_first:
  assumes "branch src x \<noteq> None" and "calculate_file_size E src (x # xs) w = (s, w')"
  shows "\<exists>evs. trace w' = trace w @ Getsize x # evs \<and> list_all (\<lambda>e. stage_of e = Inspect) evs"
proof -
  let ?w0 = "print (begin_line E ''calculate_file_size'') w"
  from assms(1) obtain v where v: "branch src x = Some v" by auto
  obtain r1 w1 where g: "os_path_getsize E x ?w0 = (r1, w1)" by (cases "os_path_getsize E x ?w0")
  note f1 = getsize_frame[OF g]
  have "\<exists>evs. trace w' = trace w1 @ evs \<and> list_all (\<lambda>e. stage_of e = Inspect) evs"
  proof (cases r1)
    case (Inl e)
    with assms(2) v g have "trace w' = trace w1"
      by (auto simp: calculate_file_size_def trace_print)
    then show ?thesis by simp
  next
    case (Inr n)
    obtain r2 w2 where l: "size_loop E src xs (unset(v := Str (size_si E n))) w1 = (r2, w2)"
      by (cases "size_loop E src xs (unset(v := Str (size_si E n))) w1")
    from extends_size_loop[OF l] obtain evs where
      "trace w2 = trace w1 @ evs" "list_all (\<lambda>e. stage_of e = Inspect) evs"
      unfolding extends_def by blast
    moreover from assms(2) v g Inr l have "trace w' = trace w2"
      by (auto simp: calculate_file_size_def trace_print split: sum.splits)
    ultimately show ?thesis by simp
  qed
  with f1 show ?thesis by (simp add: trace_print)
qed

lemma read_times_first:
  assumes "branch src x \<noteq> None" and "calculate_read_times E src (x # xs) w = (s, w')"
  shows "\<exists>evs. trace w' = trace w @ ReadTif x # evs \<and> list_all (\<lambda>e. stage_of e = Decode) evs"
proof -
  let ?w0 = "print (begin_line E ''calculate_read_times'') w"
  from assms(1) obtain v where v: "branch src x = Some v" by auto
  obtain t0 w1 where t0: "time_time E ?w0 = (t0, w1)" by (cases "time_time E ?w0")
  note f1 = time_time_frame[OF t0]
  obtain r2 w2 where rd: "read_tif E x w1 = (r2, w2)" by (cases "read_tif E x w1")
  note f2 = read_tif_frame[OF rd]
  have "\<exists>evs. trace w' = trace w2 @ evs \<and> list_all (\<lambda>e. stage_of e = Decode) evs"
  proof (cases r2)
    case (Inl e)
    with assms(2) v t0 rd have "trace w' = trace w2"
      by (auto simp: calculate_read_times_def trace_print)
    then show ?thesis by simp
  next
    case (Inr u)
    obtain t1 w3 where t1: "time_time E w2 = (t1, w3)" by (cases "time_time E w2")
    note f3 = time_time_frame[OF t1]
    obtain r4 w4 where l: "read_loop E src xs (unset(v := Secs (t1 - t0))) w3 = (r4, w4)"
      by (cases "read_loop E src xs (unset(v := Secs (t1 - t0))) w3")
    from extends_read_loop[OF l] obtain evs where
      "trace w4 = trace w3 @ evs" "list_all (\<lambda>e. stage_of e = Decode) evs"
      unfolding extends_def by blast
    moreover from assms(2) v t0 rd Inr t1 l have "trace w' = trace w4"
      by (auto simp: calculate_read_times_def trace_print split: sum.splits)
    ultimately show ?thesis using f3 by simp
  qed
  with f1 f2 show ?thesis by (simp add: trace_print)
qed

lemma remove_directory_first:
  "\<exists>evs. trace (remove_directory E (x # xs) d w) = trace w @ Remove x # evs \<and>
         list_all (\<lambda>e. stage_of e = Cleanup) evs"
proof -
  let ?w0 = "print (begin_line E ''remove_directory'') w"
  obtain r1 w1 where rm: "os_remove E x ?w0 = (r1, w1)" by (cases "os_remove E x ?w0")
  note f1 = os_remove_frame[OF rm]
  have "\<exists>evs. trace (remove_directory E (x # xs) d w) = trace w1 @ evs \<and>
      list_all (\<lambda>e. stage_of e = Cleanup) evs"
  proof (cases r1)
    case (Inl e)
    with rm have "trace (remove_directory E (x # xs) d w) = trace w1"
      by (simp add: remove_directory_def trace_print)
    then show ?thesis by simp
  next
    case (Inr u)
    obtain r2 w2 where l: "remove_loop E xs w1 = (r2, w2)" by (cases "remove_loop E xs w1")
    from extends_remove_loop[OF l] obtain evs where
      e1: "trace w2 = trace w1 @ evs" "list_all (\<lambda>e. stage_of e = Cleanup) evs"
      unfolding extends_def by blast
    show ?thesis
    proof (cases r2)
      case (Inl e)
      with rm Inr l have "trace (remove_directory E (x # xs) d w) = trace w2"
        by (simp add: remove_directory_def trace_print)
      with e1 show ?thesis by simp
    next
      case (Inr u')
      obtain r3 w3 where rd: "os_removedirs E d w2 = (r3, w3)" by (cases "os_removedirs E d w2")
      from extends_removedirs[OF rd] obtain evs' where
        e2: "trace w3 = trace w2 @ evs'" "list_all (\<lambda>e. stage_of e = Cleanup) evs'"
        unfolding extends_def by blast
      from rm \<open>r1 = Inr u\<close> l Inr rd
      have "trace (remove_directory E (x # xs) d w) = trace w3"
        by (cases r3) (simp_all add: remove_directory_def trace_print)
      with e1 e2 have "trace (remove_directory E (x # xs) d w) = trace w1 @ (evs @ evs') \<and>
          list_all (\<lambda>e. stage_of e = Cleanup) (evs @ evs')"
        by simp
      then show ?thesis by blast
    qed
  qed
  with f1 show ?thesis by (simp add: trace_print)
qed

lemma artifact_in_files: "artifact src v \<in> set (files src)"
  by (cases v) (simp_all add: files_def artifact_def)

lemma main_passes_None:
  assumes "\<forall>d. translate_result E d (artifact src v) src (command v) = Inl err"
  shows "\<exists>enc ins dec cln s r.
           trace (main E src w) =
             trace w @ enc @ Getsize (uncompressed src) # ins @
             ReadTif (uncompressed src) # dec @ Remove (uncompressed src) # cln @
             [DataFrame [s, None, r] rows columns]"
proof -
  obtain start w0 wr w1 s w2 r w3 where
    t0: "time_time E w = (start, w0)"
    and g: "generate_compressed_images E src (files src) src
              (print (begin_line E ''main'') w0) = (wr, w1)"
    and c: "calculate_file_size E src (files src) w1 = (s, w2)"
    and d: "calculate_read_times E src (files src) w2 = (r, w3)"
    and m: "trace (main E src w) =
       trace (remove_directory E (files src) (tmp_dir src) w3) @
       [DataFrame [s, wr, r] rows columns]"
    by (rule main_unfold)
  have "wr = None"
    using generate_fails[OF artifact_in_files branch_artifact assms,
        of "print (begin_line E ''main'') w0"] g by auto
  moreover have "trace (print (begin_line E ''main'') w0) = trace w"
    using time_time_frame[OF t0] by (simp add: trace_print)
  moreover obtain enc where "trace w1 = trace (print (begin_line E ''main'') w0) @ enc"
    using traced_generate[OF g] unfolding traced_def by blast
  moreover obtain ins where "trace w2 = trace w1 @ Getsize (uncompressed src) # ins"
    using file_size_first[OF branch_uncompressed, of E src "tl (files src)" w1 s w2] c
    by (metis files_Cons)
  moreover obtain dec where "trace w3 = trace w2 @ ReadTif (uncompressed src) # dec"
    using read_times_first[OF branch_uncompressed, of E src "tl (files src)" w2 r w3] d
    by (metis files_Cons)
  moreover obtain cln where
    "trace (remove_directory E (files src) (tmp_dir src) w3) =
       trace w3 @ Remove (uncompressed src) # cln"
    using remove_directory_first[of E "uncompressed src" "tl (files src)" "tmp_dir src" w3]
    by (metis files_Cons)
  ultimately have "trace (main E src w) =
             trace w @ enc @ Getsize (uncompressed src) # ins @
             ReadTif (uncompressed src) # dec @ Remove (uncompressed src) # cln @
             [DataFrame [s, None, r] rows columns]"
    using m by simp
  then show ?thesis by blast
qed

section \<open>Teardown that succeeds\<close>

lemma children_unlink: "children (unlink p d) q = filter (\<lambda>x. x \<noteq> p) (children d q)"
  by (induction d) (auto simp: children_def unlink_def)

lemma os_remove_file:
  "lookup (disk w) p = Some (File n) \<Longrightarrow> os_fault E (Remove p) = None \<Longrightarrow>
     os_remove E p w = (Inr (), (emit (Remove p) w)\<lparr>disk := unlink p (disk w)\<rparr>)"
  by (simp add: os_remove_def emit_def Let_def)

lemma os_rmdir_empty:
  "lookup (disk w) p = Some Dir \<Longrightarrow> os_fault E (Rmdir p) = None \<Longrightarrow> dirname p \<noteq> p \<Longrightarrow>
   children (disk w) p = [] \<Longrightarrow>
     os_rmdir E p w = (Inr (), (emit (Rmdir p) w)\<lparr>disk := unlink p (disk w)\<rparr>)"
  by (simp add: os_rmdir_def emit_def Let_def)

lemma os_rmdir_disk:
  "os_rmdir E p w = (r, w1) \<Longrightarrow> disk w1 = disk w \<or> disk w1 = unlink p (disk w)"
  by (auto simp: os_rmdir_def emit_def Let_def split: option.splits node.splits if_splits)

lemma prune_keeps_None:
  "lookup (disk w) q = None \<Longrightarrow> lookup (disk (prune E head tail w)) q = None"
proof (induction E head tail w rule: prune.induct)
  case (1 E head tail w)
  show ?case
  proof (cases "head \<noteq> [] \<and> tail \<noteq> []")
    case False
    with "1.prems" show ?thesis by (subst prune.simps) auto
  next
    case True
    obtain r1 w1 where rm: "os_rmdir E head w = (r1, w1)" by (cases "os_rmdir E head w")
    from os_rmdir_disk[OF rm] "1.prems" have n1: "lookup (disk w1) q = None"
      by (auto simp: lookup_unlink)
    show ?thesis
    proof (cases r1)
      case (Inl e)
      with True rm n1 show ?thesis by (subst prune.simps) simp
    next
      case (Inr u)
      from True rm Inr n1 "1.IH"
      have "lookup (disk (prune E (dirname head) (basename head) w1)) q = None" by auto
      with True rm Inr show ?thesis by (subst prune.simps) simp
    qed
  qed
qed

text \<open>With every path it is given a regular file that may be deleted, the remove loop deletes them all.\<close>

lemma remove_loop_ok:
  assumes "distinct xs"
    and "\<forall>f\<in>set xs. (\<exists>n. lookup (disk w) f = Some (File n)) \<and> os_fault E (Remove f) = None"
  shows "\<exists>w'. remove_loop E xs w = (Inr (), w') \<and> stdout w' = stdout w \<and>
           (\<forall>q. lookup (disk w') q = (if q \<in> set xs then None else lookup (disk w) q)) \<and>
           (\<forall>q. set (children (disk w') q) = set (children (disk w) q) - set xs)"
  using assms
proof (induction xs arbitrary: w)
  case Nil
  then show ?case by simp
next
  case (Cons x xs)
  from Cons.prems(2) obtain n where n: "lookup (disk w) x = Some (File n)"
    and nf: "os_fault E (Remove x) = None" by auto
  let ?w1 = "(emit (Remove x) w)\<lparr>disk := unlink x (disk w)\<rparr>"
  have rm: "os_remove E x w = (Inr (), ?w1)" using n nf by (rule os_remove_file)
  have d1: "disk ?w1 = unlink x (disk w)" by simp
  have s1: "stdout ?w1 = stdout w" by (simp add: emit_def)
  from Cons.prems have "distinct xs" and nx: "x \<notin> set xs" by simp_all
  moreover have "\<forall>f\<in>set xs. (\<exists>n. lookup (disk ?w1) f = Some (File n)) \<and> os_fault E (Remove f) = None"
    using Cons.prems(2) nx by (auto simp: lookup_unlink)
  ultimately obtain w' where
    l: "remove_loop E xs ?w1 = (Inr (), w')" and s: "stdout w' = stdout ?w1"
    and lk: "\<forall>q. lookup (disk w') q = (if q \<in> set xs then None else lookup (disk ?w1) q)"
    and ch: "\<forall>q. set (children (disk w') q) = set (children (disk ?w1) q) - set xs"
    using Cons.IH[of ?w1] by blast
  have "remove_loop E (x # xs) w = (Inr (), w')" using rm l by simp
  moreover have "stdout w' = stdout w" using s s1 by simp
  moreover have "\<forall>q. lookup (disk w') q = (if q \<in> set (x # xs) then None else lookup (disk w) q)"
    using lk by (auto simp: lookup_unlink)
  moreover have "\<forall>q. set (children (disk w') q) = set (children (disk w) q) - set (x # xs)"
    using ch by (auto simp: children_unlink)
  ultimately show ?case by blast
qed

lemma dirname_neq: "basename p \<noteq> [] \<Longrightarrow> dirname p \<noteq> p"
  using length_dirname_basename[of p] by (cases "basename p") auto

lemma remove_directory_prunes:
  assumes "distinct xs"
    and "\<forall>f\<in>set xs. (\<exists>n. lookup (disk w) f = Some (File n)) \<and> os_fault E (Remove f) = None"
    and "lookup (disk w) d = Some Dir" and "set (children (disk w) d) \<subseteq> set xs"
    and "lookup (disk w) (dirname d) = Some Dir" and "set (children (disk w) (dirname d)) \<subseteq> {d}"
    and "basename d \<noteq> []" and "dirname d \<noteq> []" and "dirname (dirname d) \<noteq> dirname d"
    and "os_fault E (Rmdir d) = None" and "os_fault E (Rmdir (dirname d)) = None"
  shows "lookup (disk (remove_directory E xs d w)) d = None \<and>
         lookup (disk (remove_directory E xs d w)) (dirname d) = None \<and>
         Rmdir (dirname d) \<in> set (trace (remove_directory E xs d w))"
proof -
  let ?p = "dirname d"
  let ?w0 = "print (begin_line E ''remove_directory'') w"
  have dp: "?p \<noteq> d" using assms(7) by (rule dirname_neq)
  have dx: "d \<notin> set xs" "?p \<notin> set xs" using assms(2,3,5) by auto
  have "\<forall>f\<in>set xs. (\<exists>n. lookup (disk ?w0) f = Some (File n)) \<and> os_fault E (Remove f) = None"
    using assms(2) by (simp add: disk_print)
  from remove_loop_ok[OF assms(1) this] obtain w1 where
    l: "remove_loop E xs ?w0 = (Inr (), w1)"
    and lk: "\<forall>q. lookup (disk w1) q = (if q \<in> set xs then None else lookup (disk w) q)"
    and ch: "\<forall>q. set (children (disk w1) q) = set (children (disk w) q) - set xs"
    unfolding disk_print by blast
  let ?w2 = "(emit (Rmdir d) w1)\<lparr>disk := unlink d (disk w1)\<rparr>"
  have "lookup (disk w1) d = Some Dir" using lk dx assms(3) by simp
  moreover have "children (disk w1) d = []" using ch assms(4) by (metis Diff_eq_empty_iff set_empty)
  ultimately have r2: "os_rmdir E d w1 = (Inr (), ?w2)"
    using assms(10) dp by (intro os_rmdir_empty) auto
  let ?w3 = "(emit (Rmdir ?p) ?w2)\<lparr>disk := unlink ?p (disk ?w2)\<rparr>"
  have "lookup (disk ?w2) ?p = Some Dir" using lk dx dp assms(5) by (simp add: lookup_unlink)
  moreover have "children (disk ?w2) ?p = []"
  proof -
    have "set (children (disk ?w2) ?p) = set (children (disk w) ?p) - set xs - {d}"
      using ch by (auto simp: children_unlink)
    with assms(6) have "set (children (disk ?w2) ?p) = {}" by auto
    then show ?thesis by simp
  qed
  ultimately have r3: "os_rmdir E ?p ?w2 = (Inr (), ?w3)"
    using assms(9,11) by (intro os_rmdir_empty) auto
  let ?w4 = "prune E (dirname ?p) (basename ?p) ?w3"
  have pr: "prune E ?p (basename d) ?w2 = ?w4"
    using assms(7,8) r3 by (subst prune.simps) simp
  have sl: "split_last d = (?p, basename d)" using assms(7) by (simp add: split_last_def)
  have rd: "os_removedirs E d w1 = (Inr (), ?w4)"
    using r2 pr sl by (simp add: os_removedirs_def)
  have res: "remove_directory E xs d w = print (success_line E ''remove_directory'') ?w4"
    using l rd by (simp add: remove_directory_def)
  have "lookup (disk ?w3) d = None" "lookup (disk ?w3) ?p = None"
    using dp by (simp_all add: lookup_unlink)
  then have "lookup (disk ?w4) d = None" "lookup (disk ?w4) ?p = None"
    by (simp_all only: prune_keeps_None)
  moreover have "Rmdir ?p \<in> set (trace ?w4)"
  proof -
    from extends_prune[of ?w3 E "dirname ?p" "basename ?p"] obtain evs where
      "trace ?w4 = trace ?w3 @ evs" unfolding extends_def by blast
    then show ?thesis by (simp add: emit_def)
  qed
  ultimately show ?thesis by (simp add: res disk_print trace_print)
qed

section \<open>The concrete worlds, evaluated\<close>

lemmas path_fun_defs = sep_def basename_def rstrip_sep_def dirname_def join_def split_last_def

lemmas world_defs = demo_world_def ready_world_def full_world_def partial_world_def stale_world_def

lemmas env_defs = demo_env_def packbits_fails_def packbits_locked_def

lemma demo_paths:
  "tmp_dir ''/data/in/dem.tif'' = ''/data/in/tmp''"
  "uncompressed ''/data/in/dem.tif'' = ''/data/in/tmp/uncompressed.tif''"
  "packbits ''/data/in/dem.tif'' = ''/data/in/tmp/packbits.tif''"
  "deflate_1 ''/data/in/dem.tif'' = ''/data/in/tmp/deflate_1.tif''"
  "deflate_2 ''/data/in/dem.tif'' = ''/data/in/tmp/deflate_2.tif''"
  "lzw_1 ''/data/in/dem.tif'' = ''/data/in/tmp/lzw_1.tif''"
  "lzw_2 ''/data/in/dem.tif'' = ''/data/in/tmp/lzw_2.tif''"
  by (simp_all add: path_defs)

lemma demo_files:
  "files ''/data/in/dem.tif'' =
     [''/data/in/tmp/uncompressed.tif'', ''/data/in/tmp/packbits.tif'',
      ''/data/in/tmp/deflate_1.tif'', ''/data/in/tmp/deflate_2.tif'',
      ''/data/in/tmp/lzw_1.tif'', ''/data/in/tmp/lzw_2.tif'']"
  by (simp add: files_def demo_paths)

lemma demo_branch:
  "branch ''/data/in/dem.tif'' ''/data/in/tmp/packbits.tif'' = Some Packbits"
  by (simp add: branch_def demo_paths)

lemma demo_artifact:
  "artifact ''/data/in/dem.tif'' v =
     (case v of Uncompressed \<Rightarrow> ''/data/in/tmp/uncompressed.tif''
      | Packbits \<Rightarrow> ''/data/in/tmp/packbits.tif''
      | Deflate_1 \<Rightarrow> ''/data/in/tmp/deflate_1.tif''
      | Deflate_2 \<Rightarrow> ''/data/in/tmp/deflate_2.tif''
      | Lzw_1 \<Rightarrow> ''/data/in/tmp/lzw_1.tif''
      | Lzw_2 \<Rightarrow> ''/data/in/tmp/lzw_2.tif'')"
  by (cases v) (simp_all add: artifact_def demo_paths)

lemma stale_paths:
  "tmp_dir ''/old/run/dem.tif'' = ''/old/run/tmp''"
  "files ''/old/run/dem.tif'' =
     [''/old/run/tmp/uncompressed.tif'', ''/old/run/tmp/packbits.tif'',
      ''/old/run/tmp/deflate_1.tif'', ''/old/run/tmp/deflate_2.tif'',
      ''/old/run/tmp/lzw_1.tif'', ''/old/run/tmp/lzw_2.tif'']"
  "dirname ''/old/run/tmp'' = ''/old/run''"
  "dirname ''/old/run'' = ''/old''"
  "basename ''/old/run/tmp'' = ''tmp''"
  by (simp_all add: path_defs)

lemma stale_teardown:
  "disk (remove_directory demo_env (files ''/old/run/dem.tif'')
       (tmp_dir ''/old/run/dem.tif'') stale_world) = [(''/'', Dir)]"
  unfolding stale_paths
  by (simp add: remove_directory_def os_defs path_fun_defs env_defs world_defs prune.simps
      begin_line_def fail_line_def success_line_def)

lemma demo_main_stages:
  "map stage_of (trace (main demo_env ''/data/in/dem.tif'' ready_world)) =
     [Encode, Encode, Encode, Encode, Encode, Encode, Encode, Encode, Encode,
      Encode, Encode, Encode, Inspect, Inspect, Inspect, Inspect, Inspect,
      Inspect, Decode, Decode, Decode, Decode, Decode, Decode, Cleanup,
      Cleanup, Cleanup, Cleanup, Cleanup, Cleanup, Cleanup, Cleanup, Report]"
  unfolding demo_files main_def
  by (simp add: stage_defs os_defs demo_paths path_fun_defs env_defs world_defs prune.simps)

section \<open>The claims about failures inside a stage\<close>

text \<open>
  C1, as the code has it: the encodes are not caught one by one. For every run in which
  the encode of a variant among the files given raises, \<^verbatim>\<open>generate_compressed_images\<close>
  catches the exception in its one handler around the whole body, prints its BEGIN line
  and one FAIL line, and returns \<^verbatim>\<open>None\<close>, not a row; the loop has ended there, so that
  only files up to and including the failing one were passed to the engine.
\<close>

theorem encode_failure_returns_None:
  assumes "f \<in> set in_files" and "branch src_img f = Some v"
    and "\<forall>d. translate_result E d f input_image (command v) = Inl err"
  shows "\<exists>e w' evs.
           generate_compressed_images E src_img in_files input_image w = (None, w') \<and>
           stdout w' = stdout w @ [begin_line E ''generate_compressed_images'',
                                   fail_line E ''generate_compressed_images'' e] \<and>
           trace w' = trace w @ evs \<and>
           set (encoded evs) \<subseteq> set (takeWhile (\<lambda>x. x \<noteq> f) in_files) \<union> {f}"
  using assms by (rule generate_fails)

theorem encode_failure_returns_None_witness:
  "\<exists>e w' evs.
     generate_compressed_images packbits_fails ''/data/in/dem.tif''
       (files ''/data/in/dem.tif'') ''/data/in/dem.tif'' ready_world = (None, w') \<and>
     stdout w' = [begin_line packbits_fails ''generate_compressed_images'',
                  fail_line packbits_fails ''generate_compressed_images'' e] \<and>
     trace w' = evs \<and>
     set (encoded evs) \<subseteq> {''/data/in/tmp/uncompressed.tif'', ''/data/in/tmp/packbits.tif''}"
proof -
  have h1: "''/data/in/tmp/packbits.tif'' \<in> set (files ''/data/in/dem.tif'')"
    by (simp add: demo_files)
  have h3: "\<forall>d. translate_result packbits_fails d ''/data/in/tmp/packbits.tif''
      ''/data/in/dem.tif'' (command Packbits) = Inl (EngineError ''No space left on device'')"
    by (simp add: packbits_fails_def)
  have tw: "takeWhile (\<lambda>x. x \<noteq> ''/data/in/tmp/packbits.tif'') (files ''/data/in/dem.tif'') =
      [''/data/in/tmp/uncompressed.tif'']"
    by (simp add: demo_files)
  have w: "stdout ready_world = []" "trace ready_world = []"
    by (simp_all add: world_defs)
  from encode_failure_returns_None[OF h1 demo_branch h3, of ready_world]
  show ?thesis unfolding tw w by auto
qed

text \<open>
  The claim as stated (the failure is recorded as an empty cell at the variant's position,
  the other five variants are still encoded and measured, and the run gives a complete
  table) fails: with the encode to \<^verbatim>\<open>packbits.tif\<close> raising, the function returns
  \<^verbatim>\<open>None\<close>, the four variants after it are never encoded, and the report of that run
  is built from three results that are all \<^verbatim>\<open>None\<close>.
\<close>

theorem encode_failure_counterexample:
  "fst (generate_compressed_images packbits_fails ''/data/in/dem.tif''
          (files ''/data/in/dem.tif'') ''/data/in/dem.tif'' ready_world) = None \<and>
   encoded (trace (snd (generate_compressed_images packbits_fails ''/data/in/dem.tif''
          (files ''/data/in/dem.tif'') ''/data/in/dem.tif'' ready_world))) =
     [''/data/in/tmp/uncompressed.tif'', ''/data/in/tmp/packbits.tif''] \<and>
   last (trace (main packbits_fails ''/data/in/dem.tif'' ready_world)) =
     DataFrame [None, None, None] rows columns"
proof -
  have a: "fst (generate_compressed_images packbits_fails ''/data/in/dem.tif''
          (files ''/data/in/dem.tif'') ''/data/in/dem.tif'' ready_world) = None \<and>
   encoded (trace (snd (generate_compressed_images packbits_fails ''/data/in/dem.tif''
          (files ''/data/in/dem.tif'') ''/data/in/dem.tif'' ready_world))) =
     [''/data/in/tmp/uncompressed.tif'', ''/data/in/tmp/packbits.tif'']"
    unfolding demo_files
    by (simp add: generate_compressed_images_def branch_def demo_paths os_defs env_defs
        world_defs begin_line_def fail_line_def success_line_def unset_def encoded_def)
  have b: "last (trace (main packbits_fails ''/data/in/dem.tif'' ready_world)) =
     DataFrame [None, None, None] rows columns"
    unfolding demo_files main_def
    by (simp add: stage_defs os_defs demo_paths path_fun_defs env_defs world_defs prune.simps)
  from a b show ?thesis by blast
qed

text \<open>
  C2, as the code has it: a stage returns \<^verbatim>\<open>None\<close> exactly when an exception left its
  loop, and it returns a row when nothing raises (the engine does not raise on what it
  is given; every artifact given is there to inspect; every artifact given decodes).
  Whenever the result is a row, it is a list of exactly six cells in the order of the
  catalog. The cell at position \<open>i\<close> is the empty string when the \<open>i\<close>-th catalog path
  was not among the files given; otherwise it is the measurement of that very variant,
  wherever its path stood among the files given: the formatted size of its artifact, or
  the difference of the two clock readings taken around its own encode or decode (the
  last one, should the path come twice). For the six paths \<^verbatim>\<open>main\<close> gives, the row
  is the six measurements in catalog order.
\<close>

theorem rows_aligned_or_None:
  "((\<forall>d. open_raises E d input_image = None) \<and>
    (\<forall>f\<in>set in_files. \<forall>v. branch src_img f = Some v \<longrightarrow>
       (\<forall>d. \<exists>d'. translate_result E d f input_image (command v) = Inr d')) \<longrightarrow>
      fst (generate_compressed_images E src_img in_files input_image w) \<noteq> None) \<and>
   (fst (generate_compressed_images E src_img in_files input_image w) = None \<longleftrightarrow>
      (\<exists>e w1. encode_loop E src_img input_image in_files unset
                (print (begin_line E ''generate_compressed_images'') w) = (Inl e, w1))) \<and>
   (\<forall>r. fst (generate_compressed_images E src_img in_files input_image w) = Some r \<longrightarrow>
      length r = 6 \<and>
      (\<forall>i<6. (files src_img ! i \<notin> set in_files \<longrightarrow> r ! i = Str []) \<and>
         (\<forall>pre post. in_files = pre @ files src_img ! i # post \<and>
              files src_img ! i \<notin> set post \<longrightarrow>
            r ! i = Secs (clock E (Suc (ticks w + length pre + members src_img pre))
                          - clock E (ticks w + length pre + members src_img pre))))) \<and>
   (\<forall>r. fst (generate_compressed_images E src_img (files src_img) input_image w) = Some r \<longrightarrow>
      r = map (\<lambda>i. Secs (clock E (Suc (ticks w + 2 * i)) - clock E (ticks w + 2 * i))) [0..<6]) \<and>
   ((\<forall>f\<in>set in_files. branch src_img f \<noteq> None \<longrightarrow>
       lookup (disk w) f \<noteq> None \<and> os_fault E (Getsize f) = None) \<longrightarrow>
      fst (calculate_file_size E src_img in_files w) \<noteq> None) \<and>
   (fst (calculate_file_size E src_img in_files w) = None \<longleftrightarrow>
      (\<exists>e w1. size_loop E src_img in_files unset
                (print (begin_line E ''calculate_file_size'') w) = (Inl e, w1))) \<and>
   (\<forall>r. fst (calculate_file_size E src_img in_files w) = Some r \<longrightarrow>
      length r = 6 \<and>
      (\<forall>i<6. (files src_img ! i \<notin> set in_files \<longrightarrow> r ! i = Str []) \<and>
         (files src_img ! i \<in> set in_files \<longrightarrow>
            r ! i = Str (size_si E (st_size E (disk w) (files src_img ! i)))))) \<and>
   (\<forall>r. fst (calculate_file_size E src_img (files src_img) w) = Some r \<longrightarrow>
      r = map (\<lambda>f. Str (size_si E (st_size E (disk w) f))) (files src_img)) \<and>
   ((\<forall>f\<in>set in_files. branch src_img f \<noteq> None \<longrightarrow> read_raises E (disk w) f = None) \<longrightarrow>
      fst (calculate_read_times E src_img in_files w) \<noteq> None) \<and>
   (fst (calculate_read_times E src_img in_files w) = None \<longleftrightarrow>
      (\<exists>e w1. read_loop E src_img in_files unset
                (print (begin_line E ''calculate_read_times'') w) = (Inl e, w1))) \<and>
   (\<forall>r. fst (calculate_read_times E src_img in_files w) = Some r \<longrightarrow>
      length r = 6 \<and>
      (\<forall>i<6. (files src_img ! i \<notin> set in_files \<longrightarrow> r ! i = Str []) \<and>
         (\<forall>pre post. in_files = pre @ files src_img ! i # post \<and>
              files src_img ! i \<notin> set post \<longrightarrow>
            r ! i = Secs (clock E (Suc (ticks w + 2 * members src_img pre))
                          - clock E (ticks w + 2 * members src_img pre))))) \<and>
   (\<forall>r. fst (calculate_read_times E src_img (files src_img) w) = Some r \<longrightarrow>
      r = map (\<lambda>i. Secs (clock E (Suc (ticks w + 2 * i)) - clock E (ticks w + 2 * i))) [0..<6])"
proof -
  note g1 = generate_returns[of E input_image in_files src_img w]
  note g2 = generate_None_iff[of E src_img in_files input_image w]
  note g3 = generate_cells[of E src_img in_files input_image w]
  note g4 = generate_cells_main[of E src_img input_image w]
  note s1 = file_size_returns[of in_files src_img w E]
  note s2 = file_size_None_iff[of E src_img in_files w]
  note s3 = file_size_cells[of E src_img in_files w]
  note s4 = file_size_cells_main[of E src_img w]
  note r1 = read_times_returns[of in_files src_img E w]
  note r2 = read_times_None_iff[of E src_img in_files w]
  note r3 = read_times_cells[of E src_img in_files w]
  note r4 = read_times_cells_main[of E src_img w]
  show ?thesis
    by (intro conjI;
        (rule g2 | rule s2 | rule r2 | use g1 g3 g4 s1 s3 s4 r1 r3 r4 in blast))
qed

theorem rows_aligned_or_None_witness:
  "fst (generate_compressed_images steady_env ''/data/in/dem.tif''
          [''/data/in/tmp/lzw_2.tif'', ''/data/in/tmp/packbits.tif''] ''/data/in/dem.tif''
          ready_world) = Some [Str [], Secs 5, Str [], Str [], Str [], Secs 1] \<and>
   fst (generate_compressed_images steady_env ''/data/in/dem.tif''
          (files ''/data/in/dem.tif'') ''/data/in/dem.tif'' ready_world) =
     Some [Secs 1, Secs 5, Secs 9, Secs 13, Secs 17, Secs 21] \<and>
   fst (calculate_file_size steady_env ''/data/in/dem.tif''
          (files ''/data/in/dem.tif'') full_world) =
     Some [Str ''K'', Str ''K'', Str ''K'', Str ''K'', Str ''K'', Str ''K''] \<and>
   fst (calculate_read_times steady_env ''/data/in/dem.tif''
          (files ''/data/in/dem.tif'') full_world) =
     Some [Secs 1, Secs 5, Secs 9, Secs 13, Secs 17, Secs 21]"
proof -
  let ?src = "''/data/in/dem.tif''"
  note inst = rows_aligned_or_None[where E = steady_env and src_img = ?src
      and input_image = ?src and in_files = "files ?src"]
  note g1 = inst[where w = ready_world, THEN conjunct1]
  note g4 = inst[where w = ready_world, THEN conjunct2, THEN conjunct2, THEN conjunct2, THEN conjunct1]
  note s1 = inst[where w = full_world, THEN conjunct2, THEN conjunct2, THEN conjunct2, THEN conjunct2, THEN conjunct1]
  note s4 = inst[where w = full_world, THEN conjunct2, THEN conjunct2, THEN conjunct2, THEN conjunct2, THEN conjunct2, THEN conjunct2, THEN conjunct2, THEN conjunct1]
  note r1 = inst[where w = full_world, THEN conjunct2, THEN conjunct2, THEN conjunct2, THEN conjunct2, THEN conjunct2, THEN conjunct2, THEN conjunct2, THEN conjunct2, THEN conjunct1]
  note r4 = inst[where w = full_world, THEN conjunct2, THEN conjunct2, THEN conjunct2, THEN conjunct2, THEN conjunct2, THEN conjunct2, THEN conjunct2, THEN conjunct2, THEN conjunct2, THEN conjunct2, THEN conjunct2]
  have e1: "fst (generate_compressed_images steady_env ?src
          [''/data/in/tmp/lzw_2.tif'', ''/data/in/tmp/packbits.tif''] ?src
          ready_world) = Some [Str [], Secs 5, Str [], Str [], Str [], Secs 1]"
    by (simp add: generate_compressed_images_def branch_def demo_paths os_defs env_defs
        steady_env_def world_defs begin_line_def fail_line_def success_line_def unset_def
        catalog_def)
  have up: "[0..<6] = [0, 1, 2, 3, 4, 5]" by (simp add: upt_rec)
  have h1: "\<forall>d. open_raises steady_env d ?src = None"
    by (simp add: steady_env_def)
  have h2: "\<forall>f\<in>set (files ?src). \<forall>v. branch ?src f = Some v \<longrightarrow>
      (\<forall>d. \<exists>d'. translate_result steady_env d f ?src (command v) = Inr d')"
    by (simp add: steady_env_def)
  from g1 h1 h2 obtain r where
    r: "fst (generate_compressed_images steady_env ?src (files ?src) ?src ready_world) = Some r"
    by blast
  with g4
  have "r = map (\<lambda>i. Secs (clock steady_env (Suc (ticks ready_world + 2 * i))
      - clock steady_env (ticks ready_world + 2 * i))) [0..<6]"
    by blast
  then have e2: "r = [Secs 1, Secs 5, Secs 9, Secs 13, Secs 17, Secs 21]"
    unfolding up by (simp add: steady_env_def world_defs)
  have h3: "\<forall>f\<in>set (files ?src). branch ?src f \<noteq> None \<longrightarrow>
      lookup (disk full_world) f \<noteq> None \<and> os_fault steady_env (Getsize f) = None"
    by (simp add: demo_files world_defs env_defs steady_env_def lookup_def)
  from s1 h3 obtain s where
    s: "fst (calculate_file_size steady_env ?src (files ?src) full_world) = Some s"
    by blast
  with s4
  have "s = map (\<lambda>f. Str (size_si steady_env (st_size steady_env (disk full_world) f)))
      (files ?src)"
    by blast
  then have e3: "s = [Str ''K'', Str ''K'', Str ''K'', Str ''K'', Str ''K'', Str ''K'']"
    by (simp add: demo_files st_size_def lookup_def world_defs env_defs steady_env_def)
  have h4: "\<forall>f\<in>set (files ?src). branch ?src f \<noteq> None \<longrightarrow>
      read_raises steady_env (disk full_world) f = None"
    by (simp add: demo_files world_defs env_defs steady_env_def lookup_def)
  from r1 h4 obtain t where
    t: "fst (calculate_read_times steady_env ?src (files ?src) full_world) = Some t"
    by blast
  with r4
  have "t = map (\<lambda>i. Secs (clock steady_env (Suc (ticks full_world + 2 * i))
      - clock steady_env (ticks full_world + 2 * i))) [0..<6]"
    by blast
  then have e4: "t = [Secs 1, Secs 5, Secs 9, Secs 13, Secs 17, Secs 21]"
    unfolding up by (simp add: steady_env_def world_defs)
  from e1 r e2 s e3 t e4 show ?thesis by simp
qed

text \<open>
  The claim as stated (every run gives three lists of length six, a failed measurement an
  empty cell) fails: with \<^verbatim>\<open>packbits.tif\<close> missing, \<^verbatim>\<open>calculate_read_times\<close> returns
  \<^verbatim>\<open>None\<close>, which is no list.
\<close>

theorem rows_counterexample:
  "fst (calculate_read_times demo_env ''/data/in/dem.tif'' (files ''/data/in/dem.tif'')
          partial_world) = None"
  unfolding demo_files
  by (simp add: calculate_read_times_def branch_def demo_paths os_defs env_defs world_defs
      begin_line_def fail_line_def success_line_def unset_def)

text \<open>
  C3, as the code has it: when deleting one of the files given raises (the path is not a
  regular file, or the system refuses), \<^verbatim>\<open>remove_directory\<close> prints its BEGIN line and
  one FAIL line and returns, so the run goes on; but the loop has ended at the first
  deletion that raised: the operations of the teardown are the deletions up to and
  including that one, no later file is tried and the directory's removal is not tried.
\<close>

theorem remove_failure_stops_teardown:
  assumes "f \<in> set in_files"
    and "(\<forall>n. lookup (disk w) f \<noteq> Some (File n)) \<or> os_fault E (Remove f) \<noteq> None"
  shows "\<exists>e k. k \<le> length (takeWhile (\<lambda>x. x \<noteq> f) in_files) \<and>
           trace (remove_directory E in_files delete_directory w) =
             trace w @ map Remove (take (Suc k) in_files) \<and>
           stdout (remove_directory E in_files delete_directory w) =
             stdout w @ [begin_line E ''remove_directory'', fail_line E ''remove_directory'' e]"
  using assms by (rule remove_directory_fails)

theorem remove_failure_stops_teardown_witness:
  "\<exists>e k. k \<le> 1 \<and>
     trace (remove_directory packbits_locked (files ''/data/in/dem.tif'')
              (tmp_dir ''/data/in/dem.tif'') full_world) =
       map Remove (take (Suc k) (files ''/data/in/dem.tif'')) \<and>
     stdout (remove_directory packbits_locked (files ''/data/in/dem.tif'')
              (tmp_dir ''/data/in/dem.tif'') full_world) =
       [begin_line packbits_locked ''remove_directory'',
        fail_line packbits_locked ''remove_directory'' e]"
proof -
  have h1: "''/data/in/tmp/packbits.tif'' \<in> set (files ''/data/in/dem.tif'')"
    by (simp add: demo_files)
  have h2: "(\<forall>n. lookup (disk full_world) ''/data/in/tmp/packbits.tif'' \<noteq> Some (File n)) \<or>
      os_fault packbits_locked (Remove ''/data/in/tmp/packbits.tif'') \<noteq> None"
    by (simp add: packbits_locked_def)
  have tw: "length (takeWhile (\<lambda>x. x \<noteq> ''/data/in/tmp/packbits.tif'')
      (files ''/data/in/dem.tif'')) = 1"
    by (simp add: demo_files)
  have w: "stdout full_world = []" "trace full_world = []"
    by (simp_all add: world_defs)
  from remove_failure_stops_teardown[OF h1 h2,
      where delete_directory = "tmp_dir ''/data/in/dem.tif''"]
  show ?thesis unfolding tw w by simp
qed

text \<open>
  The claim as stated (the remaining artifacts and the scratch directory are still
  attempted) fails: with the deletion of \<^verbatim>\<open>packbits.tif\<close> refused, the teardown does
  two deletions and stops; \<^verbatim>\<open>deflate_1.tif\<close> and the scratch directory are still there.
\<close>

theorem teardown_counterexample:
  "trace (remove_directory packbits_locked (files ''/data/in/dem.tif'')
            (tmp_dir ''/data/in/dem.tif'') full_world) =
     [Remove ''/data/in/tmp/uncompressed.tif'', Remove ''/data/in/tmp/packbits.tif''] \<and>
   lookup (disk (remove_directory packbits_locked (files ''/data/in/dem.tif'')
            (tmp_dir ''/data/in/dem.tif'') full_world)) ''/data/in/tmp/deflate_1.tif'' =
     Some (File 20000) \<and>
   lookup (disk (remove_directory packbits_locked (files ''/data/in/dem.tif'')
            (tmp_dir ''/data/in/dem.tif'') full_world)) ''/data/in/tmp'' = Some Dir"
  unfolding demo_files
  by (simp add: remove_directory_def demo_paths os_defs env_defs world_defs
      begin_line_def fail_line_def success_line_def)

text \<open>
  C4, as the code has it: \<^verbatim>\<open>calculate_file_size\<close> is all or nothing. When every catalog
  path among the files given is a regular file that may be inspected, the result is the
  row with the formatted size of each such file at its variant's position (the empty
  string at the others); when one of them is missing or may not be inspected, the
  exception is caught by the one handler around the whole body, and the function prints a
  FAIL line and returns \<^verbatim>\<open>None\<close>: no row, and no cell for the paths that do exist.
\<close>

theorem file_size_all_or_nothing:
  "((\<forall>f\<in>set in_files. branch src_img f \<noteq> None \<longrightarrow>
        (\<exists>n. lookup (disk w) f = Some (File n)) \<and> os_fault E (Getsize f) = None) \<longrightarrow>
      fst (calculate_file_size E src_img in_files w) =
        Some (map (\<lambda>v. if artifact src_img v \<in> set in_files
                        then Str (size_si E (file_size (disk w) (artifact src_img v)))
                        else Str []) catalog)) \<and>
   ((\<exists>f\<in>set in_files. branch src_img f \<noteq> None \<and>
        (lookup (disk w) f = None \<or> os_fault E (Getsize f) \<noteq> None)) \<longrightarrow>
      (\<exists>e w'. calculate_file_size E src_img in_files w = (None, w') \<and>
         stdout w' = stdout w @ [begin_line E ''calculate_file_size'',
                                 fail_line E ''calculate_file_size'' e]))"
  using file_size_ok[of in_files src_img w E] file_size_fails[of _ in_files src_img w E]
  by blast

theorem file_size_all_or_nothing_witness:
  "fst (calculate_file_size demo_env ''/data/in/dem.tif'' (files ''/data/in/dem.tif'')
          full_world) = Some [Str ''K'', Str ''K'', Str ''K'', Str ''K'', Str ''K'', Str ''K''] \<and>
   (\<exists>e w'. calculate_file_size demo_env ''/data/in/dem.tif'' (files ''/data/in/dem.tif'')
          partial_world = (None, w') \<and>
      stdout w' = [begin_line demo_env ''calculate_file_size'',
                   fail_line demo_env ''calculate_file_size'' e])"
proof -
  have a: "\<forall>f\<in>set (files ''/data/in/dem.tif''). branch ''/data/in/dem.tif'' f \<noteq> None \<longrightarrow>
      (\<exists>n. lookup (disk full_world) f = Some (File n)) \<and> os_fault demo_env (Getsize f) = None"
    by (simp add: demo_files world_defs env_defs lookup_def)
  have b: "\<exists>f\<in>set (files ''/data/in/dem.tif''). branch ''/data/in/dem.tif'' f \<noteq> None \<and>
      (lookup (disk partial_world) f = None \<or> os_fault demo_env (Getsize f) \<noteq> None)"
    using demo_branch
    by (intro bexI[of _ "''/data/in/tmp/packbits.tif''"])
       (simp_all add: demo_files world_defs lookup_def unlink_def)
  have c: "map (\<lambda>v. if artifact ''/data/in/dem.tif'' v \<in> set (files ''/data/in/dem.tif'')
      then Str (size_si demo_env (file_size (disk full_world) (artifact ''/data/in/dem.tif'' v)))
      else Str []) catalog = [Str ''K'', Str ''K'', Str ''K'', Str ''K'', Str ''K'', Str ''K'']"
    by (simp add: catalog_def demo_artifact demo_files file_size_def lookup_def world_defs env_defs)
  have w: "stdout partial_world = []" by (simp add: world_defs)
  from file_size_all_or_nothing[where in_files = "files ''/data/in/dem.tif''"
      and src_img = "''/data/in/dem.tif''" and w = full_world and E = demo_env] a c
  have 1: "fst (calculate_file_size demo_env ''/data/in/dem.tif'' (files ''/data/in/dem.tif'')
          full_world) = Some [Str ''K'', Str ''K'', Str ''K'', Str ''K'', Str ''K'', Str ''K'']"
    by simp
  from file_size_all_or_nothing[where in_files = "files ''/data/in/dem.tif''"
      and src_img = "''/data/in/dem.tif''" and w = partial_world and E = demo_env] b
  have 2: "\<exists>e w'. calculate_file_size demo_env ''/data/in/dem.tif'' (files ''/data/in/dem.tif'')
          partial_world = (None, w') \<and>
      stdout w' = [begin_line demo_env ''calculate_file_size'',
                   fail_line demo_env ''calculate_file_size'' e]"
    unfolding w by simp
  from 1 2 show ?thesis by blast
qed

text \<open>
  The claim as stated (a missing artifact gives an empty cell at its position and the
  other paths are still inspected) fails: with only \<^verbatim>\<open>packbits.tif\<close> missing, the
  result is \<^verbatim>\<open>None\<close>, and the four paths after it are never inspected.
\<close>

theorem file_size_counterexample:
  "fst (calculate_file_size demo_env ''/data/in/dem.tif'' (files ''/data/in/dem.tif'')
          partial_world) = None \<and>
   trace (snd (calculate_file_size demo_env ''/data/in/dem.tif'' (files ''/data/in/dem.tif'')
          partial_world)) =
     [Getsize ''/data/in/tmp/uncompressed.tif'', Getsize ''/data/in/tmp/packbits.tif'']"
  unfolding demo_files
  by (simp add: calculate_file_size_def branch_def demo_paths os_defs env_defs world_defs
      begin_line_def fail_line_def success_line_def unset_def)

section \<open>The claims about the whole run\<close>

text \<open>
  C6: for every run, the operations of \<^verbatim>\<open>main\<close> come in five consecutive blocks: all
  encodes, then all size inspections, then all decodes, then the teardown, and last the
  one call that builds the report from the three results.
\<close>

theorem stages_in_order:
  "\<exists>enc ins dec cln s wr r.
     trace (main E src_img w) =
       trace w @ enc @ ins @ dec @ cln @ [DataFrame [s, wr, r] rows columns] \<and>
     list_all (\<lambda>e. stage_of e = Encode) enc \<and>
     list_all (\<lambda>e. stage_of e = Inspect) ins \<and>
     list_all (\<lambda>e. stage_of e = Decode) dec \<and>
     list_all (\<lambda>e. stage_of e = Cleanup) cln"
proof -
  obtain start w0 wr w1 s w2 r w3 where
    t0: "time_time E w = (start, w0)"
    and g: "generate_compressed_images E src_img (files src_img) src_img
              (print (begin_line E ''main'') w0) = (wr, w1)"
    and c: "calculate_file_size E src_img (files src_img) w1 = (s, w2)"
    and d: "calculate_read_times E src_img (files src_img) w2 = (r, w3)"
    and m: "trace (main E src_img w) =
       trace (remove_directory E (files src_img) (tmp_dir src_img) w3) @
       [DataFrame [s, wr, r] rows columns]"
    by (rule main_unfold)
  have "trace (print (begin_line E ''main'') w0) = trace w"
    using time_time_frame[OF t0] by (simp add: trace_print)
  moreover obtain enc where "trace w1 = trace (print (begin_line E ''main'') w0) @ enc"
    "list_all (\<lambda>e. stage_of e = Encode) enc"
    using traced_generate[OF g] unfolding traced_def by blast
  moreover obtain ins where "trace w2 = trace w1 @ ins" "list_all (\<lambda>e. stage_of e = Inspect) ins"
    using traced_file_size[OF c] unfolding traced_def by blast
  moreover obtain dec where "trace w3 = trace w2 @ dec" "list_all (\<lambda>e. stage_of e = Decode) dec"
    using traced_read_times[OF d] unfolding traced_def by blast
  moreover obtain cln where
    "trace (remove_directory E (files src_img) (tmp_dir src_img) w3) = trace w3 @ cln"
    "list_all (\<lambda>e. stage_of e = Cleanup) cln"
    using traced_remove_directory[of w3 E "files src_img" "tmp_dir src_img"]
    unfolding traced_def by blast
  ultimately show ?thesis using m by (metis append.assoc)
qed

theorem stages_in_order_witness:
  "map stage_of (trace (main demo_env ''/data/in/dem.tif'' ready_world)) =
     [Encode, Encode, Encode, Encode, Encode, Encode, Encode, Encode, Encode,
      Encode, Encode, Encode, Inspect, Inspect, Inspect, Inspect, Inspect,
      Inspect, Decode, Decode, Decode, Decode, Decode, Decode, Cleanup,
      Cleanup, Cleanup, Cleanup, Cleanup, Cleanup, Cleanup, Cleanup, Report] \<and>
   (\<exists>enc ins dec cln s wr r.
     trace (main demo_env ''/data/in/dem.tif'' ready_world) =
       enc @ ins @ dec @ cln @ [DataFrame [s, wr, r] rows columns] \<and>
     list_all (\<lambda>e. stage_of e = Encode) enc \<and>
     list_all (\<lambda>e. stage_of e = Inspect) ins \<and>
     list_all (\<lambda>e. stage_of e = Decode) dec \<and>
     list_all (\<lambda>e. stage_of e = Cleanup) cln)"
proof -
  have w: "trace ready_world = []" by (simp add: world_defs)
  from stages_in_order[where E = demo_env and src_img = "''/data/in/dem.tif''" and w = ready_world]
    demo_main_stages
  show ?thesis unfolding w by simp
qed

text \<open>
  C9: each stage that produces a row has one handler around its whole body. Whatever
  exception leaves its loop, the stage prints a FAIL line with the exception's message
  and returns \<^verbatim>\<open>None\<close>, not a row of six. Such exceptions occur: the encode of a file
  given raises; a file given is missing when its size is read; decoding a file given
  raises. And \<^verbatim>\<open>main\<close> goes on with that \<^verbatim>\<open>None\<close>: when the encode of a variant raises,
  the size inspection, the decoding and the teardown still start on the first artifact,
  and the report is built from \<^verbatim>\<open>None\<close> as its row of write times.
\<close>

theorem catch_all_returns_None:
  "(\<forall>e w1. encode_loop E src_img input_image in_files unset
               (print (begin_line E ''generate_compressed_images'') w) = (Inl e, w1) \<longrightarrow>
      generate_compressed_images E src_img in_files input_image w =
        (None, print (fail_line E ''generate_compressed_images'' e) w1)) \<and>
   (\<forall>e w1. size_loop E src_img in_files unset
               (print (begin_line E ''calculate_file_size'') w) = (Inl e, w1) \<longrightarrow>
      calculate_file_size E src_img in_files w =
        (None, print (fail_line E ''calculate_file_size'' e) w1)) \<and>
   (\<forall>e w1. read_loop E src_img in_files unset
               (print (begin_line E ''calculate_read_times'') w) = (Inl e, w1) \<longrightarrow>
      calculate_read_times E src_img in_files w =
        (None, print (fail_line E ''calculate_read_times'' e) w1)) \<and>
   (f \<in> set in_files \<and> branch src_img f = Some v \<and>
      (\<forall>d. translate_result E d f input_image (command v) = Inl err) \<longrightarrow>
      (\<exists>e w'. generate_compressed_images E src_img in_files input_image w = (None, w') \<and>
         stdout w' = stdout w @ [begin_line E ''generate_compressed_images'',
                                 fail_line E ''generate_compressed_images'' e])) \<and>
   (f \<in> set in_files \<and> branch src_img f \<noteq> None \<and> lookup (disk w) f = None \<longrightarrow>
      (\<exists>e w'. calculate_file_size E src_img in_files w = (None, w') \<and>
         stdout w' = stdout w @ [begin_line E ''calculate_file_size'',
                                 fail_line E ''calculate_file_size'' e])) \<and>
   (f \<in> set in_files \<and> branch src_img f \<noteq> None \<and> read_raises E (disk w) f \<noteq> None \<longrightarrow>
      (\<exists>e w'. calculate_read_times E src_img in_files w = (None, w') \<and>
         stdout w' = stdout w @ [begin_line E ''calculate_read_times'',
                                 fail_line E ''calculate_read_times'' e])) \<and>
   ((\<forall>d. translate_result E d (artifact src_img v) src_img (command v) = Inl err) \<longrightarrow>
      (\<exists>enc ins dec cln s r.
         trace (main E src_img w) =
           trace w @ enc @ Getsize (uncompressed src_img) # ins @
           ReadTif (uncompressed src_img) # dec @ Remove (uncompressed src_img) # cln @
           [DataFrame [s, None, r] rows columns]))"
proof -
  have s1: "\<forall>e w1. encode_loop E src_img input_image in_files unset
               (print (begin_line E ''generate_compressed_images'') w) = (Inl e, w1) \<longrightarrow>
      generate_compressed_images E src_img in_files input_image w =
        (None, print (fail_line E ''generate_compressed_images'' e) w1)"
    by (simp add: generate_compressed_images_def)
  have s2: "\<forall>e w1. size_loop E src_img in_files unset
               (print (begin_line E ''calculate_file_size'') w) = (Inl e, w1) \<longrightarrow>
      calculate_file_size E src_img in_files w =
        (None, print (fail_line E ''calculate_file_size'' e) w1)"
    by (simp add: calculate_file_size_def)
  have s3: "\<forall>e w1. read_loop E src_img in_files unset
               (print (begin_line E ''calculate_read_times'') w) = (Inl e, w1) \<longrightarrow>
      calculate_read_times E src_img in_files w =
        (None, print (fail_line E ''calculate_read_times'' e) w1)"
    by (simp add: calculate_read_times_def)
  have g: "f \<in> set in_files \<and> branch src_img f = Some v \<and>
      (\<forall>d. translate_result E d f input_image (command v) = Inl err) \<longrightarrow>
      (\<exists>e w'. generate_compressed_images E src_img in_files input_image w = (None, w') \<and>
         stdout w' = stdout w @ [begin_line E ''generate_compressed_images'',
                                 fail_line E ''generate_compressed_images'' e])"
    using generate_fails[of f in_files src_img v E input_image err w] by blast
  have c: "f \<in> set in_files \<and> branch src_img f \<noteq> None \<and> lookup (disk w) f = None \<longrightarrow>
      (\<exists>e w'. calculate_file_size E src_img in_files w = (None, w') \<and>
         stdout w' = stdout w @ [begin_line E ''calculate_file_size'',
                                 fail_line E ''calculate_file_size'' e])"
    using file_size_fails[of f in_files src_img w E] by blast
  have r: "f \<in> set in_files \<and> branch src_img f \<noteq> None \<and> read_raises E (disk w) f \<noteq> None \<longrightarrow>
      (\<exists>e w'. calculate_read_times E src_img in_files w = (None, w') \<and>
         stdout w' = stdout w @ [begin_line E ''calculate_read_times'',
                                 fail_line E ''calculate_read_times'' e])"
    using read_times_fails[of f in_files src_img E w] by blast
  have m: "(\<forall>d. translate_result E d (artifact src_img v) src_img (command v) = Inl err) \<longrightarrow>
      (\<exists>enc ins dec cln s r.
         trace (main E src_img w) =
           trace w @ enc @ Getsize (uncompressed src_img) # ins @
           ReadTif (uncompressed src_img) # dec @ Remove (uncompressed src_img) # cln @
           [DataFrame [s, None, r] rows columns])"
    using main_passes_None[of E src_img v err w] by blast
  from s1 s2 s3 g c r m show ?thesis by (intro conjI)
qed

theorem catch_all_returns_None_witness:
  "(\<exists>e w'. generate_compressed_images packbits_fails ''/data/in/dem.tif''
       (files ''/data/in/dem.tif'') ''/data/in/dem.tif'' ready_world = (None, w') \<and>
      stdout w' = [begin_line packbits_fails ''generate_compressed_images'',
                   fail_line packbits_fails ''generate_compressed_images'' e]) \<and>
   (\<exists>e w'. calculate_file_size packbits_fails ''/data/in/dem.tif''
       (files ''/data/in/dem.tif'') ready_world = (None, w') \<and>
      stdout w' = [begin_line packbits_fails ''calculate_file_size'',
                   fail_line packbits_fails ''calculate_file_size'' e]) \<and>
   (\<exists>e w'. calculate_read_times packbits_fails ''/data/in/dem.tif''
       (files ''/data/in/dem.tif'') ready_world = (None, w') \<and>
      stdout w' = [begin_line packbits_fails ''calculate_read_times'',
                   fail_line packbits_fails ''calculate_read_times'' e]) \<and>
   (\<exists>enc ins dec cln s r.
      trace (main packbits_fails ''/data/in/dem.tif'' ready_world) =
        enc @ Getsize ''/data/in/tmp/uncompressed.tif'' # ins @
        ReadTif ''/data/in/tmp/uncompressed.tif'' # dec @
        Remove ''/data/in/tmp/uncompressed.tif'' # cln @
        [DataFrame [s, None, r] rows columns])"
proof -
  have h1: "''/data/in/tmp/packbits.tif'' \<in> set (files ''/data/in/dem.tif'')"
    by (simp add: demo_files)
  have h3: "\<forall>d. translate_result packbits_fails d ''/data/in/tmp/packbits.tif''
      ''/data/in/dem.tif'' (command Packbits) = Inl (EngineError ''No space left on device'')"
    by (simp add: packbits_fails_def)
  have h4: "lookup (disk ready_world) ''/data/in/tmp/packbits.tif'' = None"
    by (simp add: world_defs lookup_def)
  have h5: "read_raises packbits_fails (disk ready_world) ''/data/in/tmp/packbits.tif'' \<noteq> None"
    by (simp add: world_defs env_defs lookup_def)
  have h6: "\<forall>d. translate_result packbits_fails d (artifact ''/data/in/dem.tif'' Packbits)
      ''/data/in/dem.tif'' (command Packbits) = Inl (EngineError ''No space left on device'')"
    using h3 by (simp add: demo_artifact)
  have w: "stdout ready_world = []" "trace ready_world = []"
    by (simp_all add: world_defs)
  from catch_all_returns_None[where f = "''/data/in/tmp/packbits.tif''"
      and in_files = "files ''/data/in/dem.tif''" and src_img = "''/data/in/dem.tif''"
      and v = Packbits and E = packbits_fails and input_image = "''/data/in/dem.tif''"
      and err = "EngineError ''No space left on device''" and w = ready_world]
    h1 demo_branch h3 h4 h5 h6
  show ?thesis unfolding w by (simp add: demo_paths)
qed

text \<open>
  C10: teardown removes more than the scratch directory. When every file given is deleted
  and the scratch directory, then empty, is removed, \<^verbatim>\<open>os.removedirs\<close> goes on to the
  parent (for \<^verbatim>\<open>main\<close>, the directory of the source image): it tries to remove it,
  and when the parent held nothing but the scratch directory and is no root, the parent
  is gone afterwards as well. (In the example after the theorem the loop goes on to the
  grandparent, empty by then, and stops at the root.)
\<close>

theorem teardown_removes_empty_parent:
  assumes "distinct in_files"
    and "\<forall>f\<in>set in_files.
           (\<exists>n. lookup (disk w) f = Some (File n)) \<and> os_fault E (Remove f) = None"
    and "lookup (disk w) delete_directory = Some Dir"
    and "set (children (disk w) delete_directory) \<subseteq> set in_files"
    and "lookup (disk w) (dirname delete_directory) = Some Dir"
    and "set (children (disk w) (dirname delete_directory)) \<subseteq> {delete_directory}"
    and "basename delete_directory \<noteq> []" and "dirname delete_directory \<noteq> []"
    and "dirname (dirname delete_directory) \<noteq> dirname delete_directory"
    and "os_fault E (Rmdir delete_directory) = None"
    and "os_fault E (Rmdir (dirname delete_directory)) = None"
  shows "lookup (disk (remove_directory E in_files delete_directory w)) delete_directory = None \<and>
         lookup (disk (remove_directory E in_files delete_directory w))
           (dirname delete_directory) = None \<and>
         Rmdir (dirname delete_directory)
           \<in> set (trace (remove_directory E in_files delete_directory w))"
  using assms by (rule remove_directory_prunes)

theorem teardown_removes_empty_parent_witness:
  "lookup (disk stale_world) ''/old/run'' = Some Dir \<and>
   disk (remove_directory demo_env (files ''/old/run/dem.tif'')
       (tmp_dir ''/old/run/dem.tif'') stale_world) = [(''/'', Dir)] \<and>
   lookup (disk (remove_directory demo_env (files ''/old/run/dem.tif'')
       (tmp_dir ''/old/run/dem.tif'') stale_world)) ''/old/run/tmp'' = None \<and>
   lookup (disk (remove_directory demo_env (files ''/old/run/dem.tif'')
       (tmp_dir ''/old/run/dem.tif'') stale_world)) ''/old/run'' = None \<and>
   Rmdir ''/old/run'' \<in> set (trace (remove_directory demo_env (files ''/old/run/dem.tif'')
       (tmp_dir ''/old/run/dem.tif'') stale_world))"
proof -
  have h1: "distinct (files ''/old/run/dem.tif'')"
    by (simp add: stale_paths)
  have h2: "\<forall>f\<in>set (files ''/old/run/dem.tif'').
      (\<exists>n. lookup (disk stale_world) f = Some (File n)) \<and> os_fault demo_env (Remove f) = None"
    by (simp add: stale_paths world_defs env_defs lookup_def)
  have h3: "lookup (disk stale_world) (tmp_dir ''/old/run/dem.tif'') = Some Dir"
    by (simp add: stale_paths world_defs lookup_def)
  have h4: "set (children (disk stale_world) (tmp_dir ''/old/run/dem.tif''))
      \<subseteq> set (files ''/old/run/dem.tif'')"
    unfolding stale_paths by (simp add: world_defs children_def path_fun_defs)
  have h5: "lookup (disk stale_world) (dirname (tmp_dir ''/old/run/dem.tif'')) = Some Dir"
    by (simp add: stale_paths world_defs lookup_def)
  have h6: "set (children (disk stale_world) (dirname (tmp_dir ''/old/run/dem.tif'')))
      \<subseteq> {tmp_dir ''/old/run/dem.tif''}"
    unfolding stale_paths by (simp add: world_defs children_def path_fun_defs)
  have h7: "basename (tmp_dir ''/old/run/dem.tif'') \<noteq> []"
    and h8: "dirname (tmp_dir ''/old/run/dem.tif'') \<noteq> []"
    and h9: "dirname (dirname (tmp_dir ''/old/run/dem.tif'')) \<noteq> dirname (tmp_dir ''/old/run/dem.tif'')"
    by (simp_all add: stale_paths)
  have h10: "os_fault demo_env (Rmdir (tmp_dir ''/old/run/dem.tif'')) = None"
    and h11: "os_fault demo_env (Rmdir (dirname (tmp_dir ''/old/run/dem.tif''))) = None"
    by (simp_all add: env_defs)
  from teardown_removes_empty_parent[OF h1 h2 h3 h4 h5 h6 h7 h8 h9 h10 h11]
  have "lookup (disk (remove_directory demo_env (files ''/old/run/dem.tif'')
       (tmp_dir ''/old/run/dem.tif'') stale_world)) ''/old/run/tmp'' = None \<and>
   lookup (disk (remove_directory demo_env (files ''/old/run/dem.tif'')
       (tmp_dir ''/old/run/dem.tif'') stale_world)) ''/old/run'' = None \<and>
   Rmdir ''/old/run'' \<in> set (trace (remove_directory demo_env (files ''/old/run/dem.tif'')
       (tmp_dir ''/old/run/dem.tif'') stale_world))"
    unfolding stale_paths(1,3) .
  moreover have "lookup (disk stale_world) ''/old/run'' = Some Dir"
    using h5 by (simp only: stale_paths(1,3))
  ultimately show ?thesis using stale_teardown by blast
qed

end
